theory Spec2Isabelle
  imports Complex_Main "HOL-Library.Word"
begin

unbundle bit_operations_syntax

section \<open>DPI simulator: data model\<close>

text \<open>
  The development embeds \<^verbatim>\<open>tools/dpi-simulator/dpi_simulator.py\<close>.
  Python \<^verbatim>\<open>bytes\<close> are lists of \<open>char\<close>, the 8-bit byte type of HOL, read as
  a number by \<open>of_char\<close> and written by \<open>char_of\<close>; Python \<^verbatim>\<open>int\<close> offsets and
  counters, port numbers and TCP sequence numbers are \<open>nat\<close> (they never go below zero
  in this code), timestamps are \<open>string\<close>.
  Python \<^verbatim>\<open>str\<close> is \<open>string\<close>, one \<open>char\<close> for each code point: the model has
  the text of code points below 256. The text the simulator hands to the matcher and to
  the Host extractor comes out of \<^verbatim>\<open>decode('ascii', errors='ignore')\<close>, so all of it
  is there. A Python \<^verbatim>\<open>float\<close> is a \<open>pyfloat\<close>: a real, an infinity or NaN.
  Every Python operation that can raise returns a sum, \<open>Inl\<close> the exception.
\<close>

type_synonym byte = char

datatype exn = IndexError | StructError | ValueError | OverflowError | ParseError | SendError

datatype pyfloat = Finite real | PosInf | NegInf | NaN

definition exn_bind :: "exn + 'a \<Rightarrow> ('a \<Rightarrow> exn + 'b) \<Rightarrow> exn + 'b" where
  "exn_bind m f = (case m of Inl e \<Rightarrow> Inl e | Inr x \<Rightarrow> f x)"

text \<open>\<^verbatim>\<open>payload[i]\<close> for a non-negative index: IndexError out of range.\<close>

definition getitem :: "byte list \<Rightarrow> nat \<Rightarrow> exn + byte" where
  "getitem payload i = (if i < length payload then Inr (payload ! i) else Inl IndexError)"

text \<open>\<^verbatim>\<open>payload[i:j]\<close> for non-negative bounds: never raises, clips at the end.\<close>

definition slice :: "'a list \<Rightarrow> nat \<Rightarrow> nat \<Rightarrow> 'a list" where
  "slice payload i j = take (j - i) (drop i payload)"

text \<open>\<^verbatim>\<open>struct.unpack('!H', bs)[0]\<close> and \<^verbatim>\<open>struct.unpack('!I', bs)[0]\<close>:
  big-endian, struct.error unless the buffer has exactly 2 (4) bytes.\<close>

definition unpack_H :: "byte list \<Rightarrow> exn + nat" where
  "unpack_H bs = (case bs of [a, b] \<Rightarrow> Inr (256 * of_char a + of_char b) | _ \<Rightarrow> Inl StructError)"

definition unpack_I :: "byte list \<Rightarrow> exn + nat" where
  "unpack_I bs = (case bs of
      [a, b, c, d] \<Rightarrow>
        Inr (16777216 * of_char a + 65536 * of_char b + 256 * of_char c + of_char d)
    | _ \<Rightarrow> Inl StructError)"

text \<open>\<^verbatim>\<open>bs.decode('ascii', errors='ignore')\<close>: bytes above 127 are dropped.\<close>

definition decode_ascii_ignore :: "byte list \<Rightarrow> string" where
  "decode_ascii_ignore bs = filter (\<lambda>b. (of_char b :: nat) < 128) bs"

subsection \<open>String operations of Python used by the source\<close>

text \<open>\<^verbatim>\<open>str.lower()\<close> on text of code points below 256: the 26 capital letters
  of ASCII and the 30 capital letters of Latin-1 (U+00C0 to U+00DE without the
  multiplication sign U+00D7) move up by 32, every other character stays.\<close>

definition lower_table :: "(char \<times> char) list" where
  "lower_table =
     zip (''ABCDEFGHIJKLMNOPQRSTUVWXYZ'' @
          [CHR 0xC0, CHR 0xC1, CHR 0xC2, CHR 0xC3, CHR 0xC4, CHR 0xC5, CHR 0xC6,
           CHR 0xC7, CHR 0xC8, CHR 0xC9, CHR 0xCA, CHR 0xCB, CHR 0xCC, CHR 0xCD,
           CHR 0xCE, CHR 0xCF, CHR 0xD0, CHR 0xD1, CHR 0xD2, CHR 0xD3, CHR 0xD4,
           CHR 0xD5, CHR 0xD6, CHR 0xD8, CHR 0xD9, CHR 0xDA, CHR 0xDB, CHR 0xDC,
           CHR 0xDD, CHR 0xDE])
         (''abcdefghijklmnopqrstuvwxyz'' @
          [CHR 0xE0, CHR 0xE1, CHR 0xE2, CHR 0xE3, CHR 0xE4, CHR 0xE5, CHR 0xE6,
           CHR 0xE7, CHR 0xE8, CHR 0xE9, CHR 0xEA, CHR 0xEB, CHR 0xEC, CHR 0xED,
           CHR 0xEE, CHR 0xEF, CHR 0xF0, CHR 0xF1, CHR 0xF2, CHR 0xF3, CHR 0xF4,
           CHR 0xF5, CHR 0xF6, CHR 0xF8, CHR 0xF9, CHR 0xFA, CHR 0xFB, CHR 0xFC,
           CHR 0xFD, CHR 0xFE])"

definition lower_char :: "char \<Rightarrow> char" where
  "lower_char c = (case map_of lower_table c of Some l \<Rightarrow> l | None \<Rightarrow> c)"

definition lower :: "string \<Rightarrow> string" where
  "lower s = map lower_char s"

definition startswith :: "string \<Rightarrow> string \<Rightarrow> bool" where
  "startswith s pre = (take (length pre) s = pre)"

definition endswith :: "string \<Rightarrow> string \<Rightarrow> bool" where
  "endswith s suf = (length suf \<le> length s \<and> drop (length s - length suf) s = suf)"

text \<open>\<^verbatim>\<open>str.isspace\<close> on one ASCII character; the same set is what \<^verbatim>\<open>\s\<close> matches
  and what \<^verbatim>\<open>strip()\<close> removes: TAB, LF, VT, FF, CR, FS, GS, RS, US and space.\<close>

definition isspace :: "char \<Rightarrow> bool" where
  "isspace c = (c \<in> set [CHR 0x09, CHR 0x0A, CHR 0x0B, CHR 0x0C, CHR 0x0D,
                           CHR 0x1C, CHR 0x1D, CHR 0x1E, CHR 0x1F, CHR 0x20])"

definition strip :: "string \<Rightarrow> string" where
  "strip s = rev (dropWhile isspace (rev (dropWhile isspace s)))"

definition truthy :: "string option \<Rightarrow> bool" where
  "truthy v = (case v of None \<Rightarrow> False | Some s \<Rightarrow> s \<noteq> [])"

section \<open>DomainMatcher\<close>

text \<open>\<^verbatim>\<open>_is_domain_blocked\<close>. The blocklist is a Python set; the list gives the order
  in which the \<^verbatim>\<open>for\<close> loop happens to visit it.\<close>

fun blocked_loop :: "string list \<Rightarrow> string \<Rightarrow> bool" where
  "blocked_loop [] domain = False"
| "blocked_loop (blocked # rest) domain =
     (if endswith domain (''.'' @ blocked) then True else blocked_loop rest domain)"

definition is_domain_blocked :: "string list \<Rightarrow> string \<Rightarrow> bool" where
  "is_domain_blocked blocked_domains domain =
     (let domain = lower domain in
      if domain \<in> set blocked_domains then True
      else blocked_loop blocked_domains domain)"

section \<open>ProtocolExtractors\<close>

subsection \<open>QUIC-Initial detector\<close>

definition is_quic_initial_try :: "byte list \<Rightarrow> exn + bool" where
  "is_quic_initial_try payload =
     (if length payload < 6 then Inr False
      else exn_bind (getitem payload 0) (\<lambda>b0.
        if (of_char b0 :: nat) AND 0x80 = 0 then Inr False
        else exn_bind (getitem payload 0) (\<lambda>b0.
          if (of_char b0 :: nat) AND 0x40 = 0 then Inr False
          else exn_bind (getitem payload 0) (\<lambda>b0.
            let packet_type = drop_bit 4 ((of_char b0 :: nat) AND 0x30) in
            if packet_type \<noteq> 0 then Inr False
            else exn_bind (unpack_I (slice payload 1 5)) (\<lambda>version.
              if version = 0 then Inr False else Inr True)))))"

text \<open>The \<^verbatim>\<open>except Exception: return False\<close> around the body.\<close>

definition is_quic_initial :: "byte list \<Rightarrow> exn + bool" where
  "is_quic_initial payload =
     (case is_quic_initial_try payload of Inl e \<Rightarrow> Inr False | Inr b \<Rightarrow> Inr b)"

subsection \<open>Host extractor\<close>

text \<open>
  \<^verbatim>\<open>re.search(r'Host:\s*([^\r\n]+)', data, re.IGNORECASE)\<close> on ASCII text.
  \<open>group_at s k\<close> is the greedy group \<^verbatim>\<open>[^\r\n]+\<close> started after \<open>k\<close> characters;
  \<open>try_ws s k\<close> is the backtracking of the greedy \<^verbatim>\<open>\s*\<close>, which first takes all
  \<open>k\<close> leading whitespace characters and gives them back one at a time;
  \<open>match_here\<close> is one attempt anchored at the start of \<open>s\<close>, and \<open>re_search\<close>
  tries the positions from left to right. The result is group 1 of the first match.
\<close>

definition not_crlf :: "char \<Rightarrow> bool" where
  "not_crlf c = (c \<noteq> CHR 0x0D \<and> c \<noteq> CHR 0x0A)"

definition group_at :: "string \<Rightarrow> nat \<Rightarrow> string option" where
  "group_at s k = (let g = takeWhile not_crlf (drop k s) in if g = [] then None else Some g)"

fun try_ws :: "string \<Rightarrow> nat \<Rightarrow> string option" where
  "try_ws s 0 = group_at s 0"
| "try_ws s (Suc k) = (case group_at s (Suc k) of Some g \<Rightarrow> Some g | None \<Rightarrow> try_ws s k)"

definition match_here :: "string \<Rightarrow> string option" where
  "match_here s =
     (if lower (take 5 s) = ''host:''
      then try_ws (drop 5 s) (length (takeWhile isspace (drop 5 s)))
      else None)"

fun re_search :: "string \<Rightarrow> string option" where
  "re_search [] = match_here []"
| "re_search (c # cs) =
     (case match_here (c # cs) of Some g \<Rightarrow> Some g | None \<Rightarrow> re_search cs)"

definition http_methods :: "string list" where
  "http_methods = [''GET '', ''POST '', ''HEAD '', ''PUT '', ''DELETE '', ''CONNECT '']"

definition extract_http_host_try :: "byte list \<Rightarrow> exn + string option" where
  "extract_http_host_try payload =
     (let data = decode_ascii_ignore payload in
      if \<not> list_ex (\<lambda>m. startswith data m) http_methods then Inr None
      else (case re_search data of
              Some g \<Rightarrow>
                (let host = strip g in
                 Inr (Some (if CHR '':'' \<in> set host then takeWhile (\<lambda>c. c \<noteq> CHR '':'') host
                            else host)))
            | None \<Rightarrow> Inr None))"

text \<open>The \<^verbatim>\<open>except Exception\<close> logs and falls through to \<^verbatim>\<open>return None\<close>.\<close>

definition extract_http_host :: "byte list \<Rightarrow> exn + string option" where
  "extract_http_host payload =
     (case extract_http_host_try payload of Inl e \<Rightarrow> Inr None | Inr h \<Rightarrow> Inr h)"

subsection \<open>SNI extractor\<close>

text \<open>
  The block of \<^verbatim>\<open>_extract_sni\<close> entered for an extension of type 0 that fits in
  the payload, starting at the extension data. Every \<^verbatim>\<open>break\<close> leaves the loop
  for the final \<^verbatim>\<open>return None\<close>, so it is the value \<open>Inr None\<close>.
\<close>

definition parse_server_name :: "byte list \<Rightarrow> nat \<Rightarrow> exn + string option" where
  "parse_server_name payload offset =
     (if offset + 2 > length payload then Inr None
      else exn_bind (unpack_H (slice payload offset (offset + 2))) (\<lambda>sni_list_len.
        let offset = offset + 2 in
        if offset + 1 > length payload then Inr None
        else exn_bind (getitem payload offset) (\<lambda>sni_type.
          let offset = offset + 1 in
          if (of_char sni_type :: nat) = 0x00 then
            (if offset + 2 > length payload then Inr None
             else exn_bind (unpack_H (slice payload offset (offset + 2))) (\<lambda>sni_len.
               let offset = offset + 2 in
               if offset + sni_len \<le> length payload
               then Inr (Some (decode_ascii_ignore (slice payload offset (offset + sni_len))))
               else Inr None))
          else Inr None)))"

text \<open>The \<^verbatim>\<open>while\<close> loop over the extensions.\<close>

function extensions_loop :: "byte list \<Rightarrow> nat \<Rightarrow> nat \<Rightarrow> exn + string option" where
  "extensions_loop payload extensions_end offset =
     (if offset + 4 \<le> extensions_end \<and> offset + 4 \<le> length payload then
        (case unpack_H (slice payload offset (offset + 2)) of
           Inl e \<Rightarrow> Inl e
         | Inr ext_type \<Rightarrow>
             (case unpack_H (slice payload (offset + 2) (offset + 4)) of
                Inl e \<Rightarrow> Inl e
              | Inr ext_len \<Rightarrow>
                  if ext_type = 0x0000 \<and> offset + 4 + ext_len \<le> length payload
                  then parse_server_name payload (offset + 4)
                  else extensions_loop payload extensions_end (offset + 4 + ext_len)))
      else Inr None)"
  by pat_completeness auto
termination
  by (relation "measure (\<lambda>(payload, extensions_end, offset). length payload - offset)") auto

declare extensions_loop.simps [simp del]

definition extract_sni_try :: "byte list \<Rightarrow> exn + string option" where
  "extract_sni_try payload =
     (if length payload < 43 then Inr None
      else exn_bind (getitem payload 0) (\<lambda>b0.
        if (of_char b0 :: nat) \<noteq> 0x16 then Inr None
        else exn_bind (getitem payload 5) (\<lambda>b5.
          if (of_char b5 :: nat) \<noteq> 0x01 then Inr None
          else
            let offset = 43 in
            if offset \<ge> length payload then Inr None
            else exn_bind (getitem payload offset) (\<lambda>session_id_len.
              let offset = offset + 1 + of_char session_id_len in
              if offset + 2 > length payload then Inr None
              else exn_bind (unpack_H (slice payload offset (offset + 2))) (\<lambda>cipher_suites_len.
                let offset = offset + 2 + cipher_suites_len in
                if offset + 1 > length payload then Inr None
                else exn_bind (getitem payload offset) (\<lambda>compression_len.
                  let offset = offset + 1 + of_char compression_len in
                  if offset + 2 > length payload then Inr None
                  else exn_bind (unpack_H (slice payload offset (offset + 2))) (\<lambda>extensions_len.
                    let offset = offset + 2;
                        extensions_end = offset + extensions_len
                    in extensions_loop payload extensions_end offset)))))))"

text \<open>The \<^verbatim>\<open>except Exception\<close> logs and falls through to \<^verbatim>\<open>return None\<close>.\<close>

definition extract_sni :: "byte list \<Rightarrow> exn + string option" where
  "extract_sni payload =
     (case extract_sni_try payload of Inl e \<Rightarrow> Inr None | Inr sni \<Rightarrow> Inr sni)"

subsection \<open>The TLS wire format\<close>

text \<open>
  The encoder of a ClientHello record (RFC 8446 section 4.1.2, RFC 6066 section 3), used
  to say what a well-formed payload carrying a server name is: the record header, the
  handshake header, the client version, the random, the length-prefixed session id,
  cipher suites and compression methods, and the length-prefixed list of extensions, each
  a 2-byte type, a 2-byte length and its data. The server_name extension holds a list
  with one entry of name type 0 (host_name) and the length-prefixed host name.
\<close>

definition be16 :: "nat \<Rightarrow> byte list" where
  "be16 n = [char_of (n div 256), char_of (n mod 256)]"

definition be24 :: "nat \<Rightarrow> byte list" where
  "be24 n = [char_of (n div 65536), char_of (n div 256 mod 256), char_of (n mod 256)]"

definition encode_extension :: "nat \<times> byte list \<Rightarrow> byte list" where
  "encode_extension ext = be16 (fst ext) @ be16 (length (snd ext)) @ snd ext"

definition encode_extensions :: "(nat \<times> byte list) list \<Rightarrow> byte list" where
  "encode_extensions exts = concat (map encode_extension exts)"

definition server_name_data :: "byte list \<Rightarrow> byte list" where
  "server_name_data host = be16 (length host + 3) @ [char_of (0::nat)] @ be16 (length host) @ host"

record client_hello =
  record_version :: "byte list"
  client_version :: "byte list"
  random :: "byte list"
  session_id :: "byte list"
  cipher_suites :: "byte list"
  compression_methods :: "byte list"
  extensions_before :: "(nat \<times> byte list) list"
  host_name :: "byte list"
  extensions_after :: "(nat \<times> byte list) list"

definition hello_extensions :: "client_hello \<Rightarrow> byte list" where
  "hello_extensions h =
     encode_extensions (extensions_before h)
     @ encode_extension (0, server_name_data (host_name h))
     @ encode_extensions (extensions_after h)"

definition hello_body :: "client_hello \<Rightarrow> byte list" where
  "hello_body h =
     client_version h @ random h
     @ [char_of (length (session_id h))] @ session_id h
     @ be16 (length (cipher_suites h)) @ cipher_suites h
     @ [char_of (length (compression_methods h))] @ compression_methods h
     @ be16 (length (hello_extensions h)) @ hello_extensions h"

definition encode_client_hello :: "client_hello \<Rightarrow> byte list" where
  "encode_client_hello h =
     [char_of (0x16::nat)] @ record_version h @ be16 (4 + length (hello_body h))
     @ [char_of (0x01::nat)] @ be24 (length (hello_body h))
     @ hello_body h"

text \<open>Well-formedness: every field has the size its length prefix can express, no
  extension before the server name has type 0, and the host name is ASCII.\<close>

definition wf_extension :: "nat \<times> byte list \<Rightarrow> bool" where
  "wf_extension ext = (fst ext < 65536 \<and> length (snd ext) < 65536)"

definition wf_client_hello :: "client_hello \<Rightarrow> bool" where
  "wf_client_hello h =
     (length (record_version h) = 2 \<and> length (client_version h) = 2
      \<and> length (random h) = 32
      \<and> length (session_id h) \<le> 32
      \<and> length (cipher_suites h) < 65536
      \<and> length (compression_methods h) < 256
      \<and> list_all (\<lambda>ext. wf_extension ext \<and> fst ext \<noteq> 0) (extensions_before h)
      \<and> list_all wf_extension (extensions_after h)
      \<and> length (host_name h) + 5 < 65536
      \<and> list_all (\<lambda>b. (of_char b :: nat) < 128) (host_name h)
      \<and> length (hello_extensions h) < 65536)"

text \<open>The offset just after the last byte of the host name in the encoded record.\<close>

definition host_name_end :: "client_hello \<Rightarrow> nat" where
  "host_name_end h =
     43 + 1 + length (session_id h) + 2 + length (cipher_suites h)
     + 1 + length (compression_methods h) + 2
     + length (encode_extensions (extensions_before h)) + 4 + 5 + length (host_name h)"

section \<open>Simulator state\<close>

datatype BlockMode = DROP | RST | MITM | THROTTLE

record DomainMetrics =
  dm_blocked :: nat
  dm_passed :: nat
  last_blocked :: "string option"
  block_types :: "string \<rightharpoonup> nat"

definition new_DomainMetrics :: DomainMetrics where
  "new_DomainMetrics =
     \<lparr>dm_blocked = 0, dm_passed = 0, last_blocked = None, block_types = Map.empty\<rparr>"

record SimulatorStats =
  total_packets :: nat
  blocked_sni :: nat
  blocked_http :: nat
  blocked_quic :: nat
  passed :: nat
  start_time :: string
  domain_metrics :: "string \<rightharpoonup> DomainMetrics"

text \<open>\<^verbatim>\<open>SimulatorStats()\<close>, created at the time \<open>now\<close>.\<close>

definition new_SimulatorStats :: "string \<Rightarrow> SimulatorStats" where
  "new_SimulatorStats now_iso =
     \<lparr>total_packets = 0, blocked_sni = 0, blocked_http = 0, blocked_quic = 0, passed = 0,
      start_time = now_iso, domain_metrics = Map.empty\<rparr>"

record DPISimulator =
  blocked_domains :: "string list"
  stats :: SimulatorStats
  mode :: BlockMode
  running :: bool
  mitm_redirect :: string
  throttle_delay :: pyfloat

text \<open>
  What scapy's \<^verbatim>\<open>IP(...)\<close> gives for a packet: the addresses, the transport layer
  that \<^verbatim>\<open>haslayer(TCP)\<close> and \<^verbatim>\<open>haslayer(UDP)\<close> find, and the load of the Raw
  layer when there is one. A queued packet is the outcome of
  \<^verbatim>\<open>IP(packet.get_payload())\<close>: the exception it raises or the parsed packet.
\<close>

datatype layer4 = TCP nat nat nat nat | UDP nat nat | NoTransport

record ip_packet =
  src :: string
  dst :: string
  transport :: layer4
  raw_load :: "byte list option"

type_synonym nf_packet = "exn + ip_packet"

record rst_packet =
  rst_src :: string
  rst_dst :: string
  rst_sport :: nat
  rst_dport :: nat
  rst_seq :: nat
  rst_ack :: nat
  rst_flags :: string

text \<open>The world outside the simulator: whether scapy's \<^verbatim>\<open>send\<close> raises for a
  segment, the clock read by \<^verbatim>\<open>datetime.now().isoformat()\<close>, and the longest time
  the platform's \<^verbatim>\<open>time.sleep\<close> sleeps (CPython 3.11 on 64-bit Linux counts the
  delay in nanoseconds in 64 bits: above 9223372036 seconds the conversion raises
  OverflowError, and a little below that the system call fails).\<close>

record env =
  send_raises :: "rst_packet \<Rightarrow> bool"
  now :: string
  sleep_max :: real

text \<open>The effects on the outside, in the order they happen: the verdict given to the
  queue, the segment handed to \<^verbatim>\<open>send\<close>, the time slept, the log records.\<close>

datatype verdict = Accept | Drop

datatype effect =
    Verdict verdict
  | Send rst_packet
  | Sleep real
  | LogBlock string "string \<times> nat" "string \<times> nat" "string option"
  | LogError exn

type_synonym outcome = "exn option \<times> DPISimulator \<times> effect list"

section \<open>MetricsStore\<close>

definition update_domain_metrics ::
  "env \<Rightarrow> DPISimulator \<Rightarrow> string \<Rightarrow> bool \<Rightarrow> string option \<Rightarrow> DPISimulator" where
  "update_domain_metrics e self domain blocked block_type =
     (let dm = domain_metrics (stats self);
          metrics = (case dm domain of None \<Rightarrow> new_DomainMetrics | Some m \<Rightarrow> m);
          metrics' =
            (if blocked then
               metrics\<lparr>dm_blocked := dm_blocked metrics + 1,
                       last_blocked := Some (now e),
                       block_types :=
                         (if truthy block_type then
                            (block_types metrics)(the block_type \<mapsto>
                               (case block_types metrics (the block_type) of
                                  None \<Rightarrow> 0 | Some n \<Rightarrow> n) + 1)
                          else block_types metrics)\<rparr>
             else metrics\<lparr>dm_passed := dm_passed metrics + 1\<rparr>)
      in self\<lparr>stats := (stats self)\<lparr>domain_metrics := dm(domain \<mapsto> metrics')\<rparr>\<rparr>)"

subsection \<open>The single writes of the source\<close>







section \<open>ActionDispatcher\<close>

text \<open>\<^verbatim>\<open>_send_rst\<close>: the whole body is inside \<^verbatim>\<open>try\<close>, so a failing
  \<^verbatim>\<open>send\<close> is logged and nothing is raised.\<close>

definition send_rst :: "env \<Rightarrow> ip_packet \<Rightarrow> effect list" where
  "send_rst e ip_packet =
     (case transport ip_packet of
        TCP sport dport seq ack \<Rightarrow>
          (let rst = \<lparr>rst_src = dst ip_packet, rst_dst = src ip_packet,
                      rst_sport = dport, rst_dport = sport,
                      rst_seq = (if ack \<noteq> 0 then ack else 0),
                      rst_ack = seq + 1,
                      rst_flags = ''RA''\<rparr>
           in if send_raises e rst then [Send rst, LogError SendError] else [Send rst])
      | _ \<Rightarrow> [])"

text \<open>\<^verbatim>\<open>time.sleep(secs)\<close> raises ValueError for NaN and for a negative length,
  OverflowError for an infinite length and for one beyond what the platform sleeps (in
  either direction: the conversion to the platform's time type comes before the test of
  the sign), and otherwise returns after at least that time.\<close>

definition time_sleep :: "env \<Rightarrow> pyfloat \<Rightarrow> exn + effect list" where
  "time_sleep e secs =
     (case secs of
        NaN \<Rightarrow> Inl ValueError
      | PosInf \<Rightarrow> Inl OverflowError
      | NegInf \<Rightarrow> Inl OverflowError
      | Finite d \<Rightarrow>
          if d < - sleep_max e \<or> sleep_max e < d then Inl OverflowError
          else if d < 0 then Inl ValueError
          else Inr [Sleep d])"

text \<open>\<^verbatim>\<open>_apply_throttle\<close>.\<close>

definition apply_throttle :: "env \<Rightarrow> DPISimulator \<Rightarrow> exn + effect list" where
  "apply_throttle e self = time_sleep e (throttle_delay self)"

text \<open>\<^verbatim>\<open>_block_packet\<close>. Reading the port for the log line raises IndexError when
  the packet has neither a TCP nor a UDP layer.\<close>

definition block_packet ::
  "env \<Rightarrow> DPISimulator \<Rightarrow> ip_packet \<Rightarrow> string \<Rightarrow> string option \<Rightarrow> outcome" where
  "block_packet e self ip_packet block_type domain =
     (case (case transport ip_packet of
              TCP sport dport seq ack \<Rightarrow> Inr (sport, dport)
            | UDP sport dport \<Rightarrow> Inr (sport, dport)
            | NoTransport \<Rightarrow> Inl IndexError) of
        Inl ex \<Rightarrow> (Some ex, self, [])
      | Inr (sport, dport) \<Rightarrow>
          (let log = LogBlock block_type (src ip_packet, sport) (dst ip_packet, dport) domain;
               self = update_domain_metrics e self
                        (if truthy domain then the domain else ''unknown'') True (Some block_type)
           in case mode self of
                DROP \<Rightarrow> (None, self, [log, Verdict Drop])
              | RST \<Rightarrow> (None, self, [log] @ send_rst e ip_packet @ [Verdict Drop])
              | MITM \<Rightarrow> (None, self, [log, Verdict Drop])
              | THROTTLE \<Rightarrow>
                  (case apply_throttle e self of
                     Inl ex \<Rightarrow> (Some ex, self, [log])
                   | Inr slept \<Rightarrow> (None, self, [log] @ slept @ [Verdict Accept]))))"

section \<open>PacketClassifier\<close>

text \<open>The last two statements of the \<^verbatim>\<open>try\<close> block of \<^verbatim>\<open>process_packet\<close>.\<close>

definition pass_packet :: "DPISimulator \<Rightarrow> outcome" where
  "pass_packet self =
     (None, self\<lparr>stats := (stats self)\<lparr>passed := passed (stats self) + 1\<rparr>\<rparr>, [Verdict Accept])"

text \<open>The \<^verbatim>\<open>if tcp.dport == 80\<close> block and what follows it.\<close>

definition process_http :: "env \<Rightarrow> DPISimulator \<Rightarrow> ip_packet \<Rightarrow> nat \<Rightarrow> byte list \<Rightarrow> outcome" where
  "process_http e self ip_packet dport payload =
     (if dport = 80 then
        (case extract_http_host payload of
           Inl ex \<Rightarrow> (Some ex, self, [])
         | Inr host \<Rightarrow>
             if truthy host \<and> is_domain_blocked (blocked_domains self) (the host) then
               block_packet e
                 (self\<lparr>stats := (stats self)\<lparr>blocked_http := blocked_http (stats self) + 1\<rparr>\<rparr>)
                 ip_packet ''HTTP'' host
             else pass_packet self)
      else pass_packet self)"

text \<open>The body of the \<^verbatim>\<open>try\<close> block of \<^verbatim>\<open>process_packet\<close>.\<close>

definition process_packet_try :: "env \<Rightarrow> DPISimulator \<Rightarrow> nf_packet \<Rightarrow> outcome" where
  "process_packet_try e self packet =
     (case packet of
        Inl ex \<Rightarrow> (Some ex, self, [])
      | Inr ip_packet \<Rightarrow>
          (case transport ip_packet of
             TCP sport dport seq ack \<Rightarrow>
               (case raw_load ip_packet of
                  Some payload \<Rightarrow>
                    if dport = 443 then
                      (case extract_sni payload of
                         Inl ex \<Rightarrow> (Some ex, self, [])
                       | Inr sni \<Rightarrow>
                           if truthy sni \<and> is_domain_blocked (blocked_domains self) (the sni)
                           then
                             block_packet e
                               (self\<lparr>stats := (stats self)
                                  \<lparr>blocked_sni := blocked_sni (stats self) + 1\<rparr>\<rparr>)
                               ip_packet ''SNI'' sni
                           else process_http e self ip_packet dport payload)
                    else process_http e self ip_packet dport payload
                | None \<Rightarrow> pass_packet self)
           | UDP sport dport \<Rightarrow>
               (case (if dport = 443 then raw_load ip_packet else None) of
                  Some payload \<Rightarrow>
                    (case is_quic_initial payload of
                       Inl ex \<Rightarrow> (Some ex, self, [])
                     | Inr quic \<Rightarrow>
                         if quic then
                           block_packet e
                             (self\<lparr>stats := (stats self)
                                \<lparr>blocked_quic := blocked_quic (stats self) + 1\<rparr>\<rparr>)
                             ip_packet ''QUIC'' None
                         else pass_packet self)
                | None \<Rightarrow> pass_packet self)
           | NoTransport \<Rightarrow> pass_packet self))"

text \<open>\<^verbatim>\<open>process_packet\<close>: the counter, the \<^verbatim>\<open>try\<close> block and its handler, which
  logs the exception and accepts the packet.\<close>

definition process_packet :: "env \<Rightarrow> DPISimulator \<Rightarrow> nf_packet \<Rightarrow> outcome" where
  "process_packet e self packet =
     (let self = self\<lparr>stats := (stats self)\<lparr>total_packets := total_packets (stats self) + 1\<rparr>\<rparr>
      in case process_packet_try e self packet of
           (None, self, effects) \<Rightarrow> (None, self, effects)
         | (Some ex, self, effects) \<Rightarrow> (None, self, effects @ [LogError ex, Verdict Accept]))"

section \<open>Control plane and runs\<close>

text \<open>One thing that happens to a running simulator: the queue delivers a packet, or
  the API handler serves \<^verbatim>\<open>POST /mode\<close> with a valid mode, \<^verbatim>\<open>POST /reset-stats\<close>
  (at a time) or \<^verbatim>\<open>POST /stop\<close>.\<close>

datatype command = Packet env nf_packet | SetMode BlockMode | ResetStats string | Stop

fun step :: "DPISimulator \<Rightarrow> command \<Rightarrow> DPISimulator \<times> effect list" where
  "step self (Packet e packet) = snd (process_packet e self packet)"
| "step self (SetMode new_mode) = (self\<lparr>mode := new_mode\<rparr>, [])"
| "step self (ResetStats now_iso) = (self\<lparr>stats := new_SimulatorStats now_iso\<rparr>, [])"
| "step self Stop = (self\<lparr>running := False\<rparr>, [])"

fun run :: "DPISimulator \<Rightarrow> command list \<Rightarrow> DPISimulator" where
  "run self [] = self"
| "run self (c # cs) = run (fst (step self c)) cs"

text \<open>\<^verbatim>\<open>DPISimulator.__init__\<close> followed by the start of \<^verbatim>\<open>run\<close>.\<close>

definition new_DPISimulator ::
  "string list \<Rightarrow> BlockMode \<Rightarrow> pyfloat \<Rightarrow> string \<Rightarrow> DPISimulator" where
  "new_DPISimulator domains m delay now_iso =
     \<lparr>blocked_domains = domains, stats = new_SimulatorStats now_iso, mode = m,
      running = True, mitm_redirect = ''127.0.0.1:8080'', throttle_delay = delay\<rparr>"

subsection \<open>Observations on the effects\<close>

definition verdicts :: "effect list \<Rightarrow> verdict list" where
  "verdicts effects = concat (map (\<lambda>x. case x of Verdict v \<Rightarrow> [v] | _ \<Rightarrow> []) effects)"

definition injections :: "effect list \<Rightarrow> rst_packet list" where
  "injections effects = concat (map (\<lambda>x. case x of Send r \<Rightarrow> [r] | _ \<Rightarrow> []) effects)"

text \<open>The equation between the five counters of \<^verbatim>\<open>SimulatorStats\<close>.\<close>

definition counters_add_up :: "SimulatorStats \<Rightarrow> bool" where
  "counters_add_up st \<longleftrightarrow>
     total_packets st = blocked_sni st + blocked_http st + blocked_quic st + passed st"

text \<open>No entry of the per-domain map has counted a passed packet.\<close>

definition domain_passed_zero :: "DPISimulator \<Rightarrow> bool" where
  "domain_passed_zero s \<longleftrightarrow> (\<forall>d m. domain_metrics (stats s) d = Some m \<longrightarrow> dm_passed m = 0)"


subsection \<open>Example inputs\<close>

definition crlf :: string where
  "crlf = [CHR 0x0D, CHR 0x0A]"

definition http_request :: "byte list" where
  "http_request = ''GET / HTTP/1.1'' @ crlf @ ''Host: example.com:8080'' @ crlf @ crlf"

definition http_request_forwarded :: "byte list" where
  "http_request_forwarded =
     ''GET / HTTP/1.1'' @ crlf @ ''X-Forwarded-Host: a.example'' @ crlf
     @ ''Host: b.example'' @ crlf @ crlf"

definition quic_initial :: "byte list" where
  "quic_initial = [CHR 0xC0, CHR 0x00, CHR 0x00, CHR 0x00, CHR 0x01, CHR 0x00]"

definition http_packet :: ip_packet where
  "http_packet = \<lparr>src = ''10.0.0.1'', dst = ''10.0.0.2'', transport = TCP 40000 80 1000 2000,
                   raw_load = Some http_request\<rparr>"

definition quic_packet :: ip_packet where
  "quic_packet = \<lparr>src = ''10.0.0.1'', dst = ''10.0.0.2'', transport = UDP 50000 443,
                   raw_load = Some quic_initial\<rparr>"

definition example_hello :: client_hello where
  "example_hello =
     \<lparr>record_version = [CHR 0x03, CHR 0x01], client_version = [CHR 0x03, CHR 0x03],
      random = replicate 32 (CHR 0x2A), session_id = [],
      cipher_suites = [CHR 0x13, CHR 0x01], compression_methods = [CHR 0x00],
      extensions_before = [(43, [CHR 0x02, CHR 0x03, CHR 0x04])],
      host_name = ''example.com'', extensions_after = [(10, [CHR 0x00, CHR 0x02, CHR 0x00, CHR 0x1D])]\<rparr>"


definition quiet_env :: env where
  "quiet_env = \<lparr>send_raises = (\<lambda>r. False), now = ''2026-01-01T00:00:00'',
                 sleep_max = 9000000000\<rparr>"

section \<open>Properties of the DomainMatcher\<close>

lemma endswith_iff: "endswith s suf \<longleftrightarrow> (\<exists>pre. s = pre @ suf)"
proof
  assume "endswith s suf"
  then have "s = take (length s - length suf) s @ suf"
    by (metis append_take_drop_id endswith_def)
  then show "\<exists>pre. s = pre @ suf" ..
next
  assume "\<exists>pre. s = pre @ suf"
  then show "endswith s suf" by (auto simp: endswith_def)
qed

lemma blocked_loop_iff: "blocked_loop bl d \<longleftrightarrow> (\<exists>b\<in>set bl. endswith d (''.'' @ b))"
  by (induction bl) auto

lemma is_domain_blocked_iff:
  "is_domain_blocked B d \<longleftrightarrow>
     (lower d \<in> set B \<or> (\<exists>b\<in>set B. \<exists>pre. lower d = pre @ ''.'' @ b))"
  by (auto simp: is_domain_blocked_def blocked_loop_iff endswith_iff Let_def)

text \<open>\<open>lower\<close> by code points: the capital letters of ASCII (65 to 90) and of Latin-1
  (192 to 222 without 215) move up by 32.\<close>

lemma lower_char_code_point:
  "lower_char c =
     (if (65 \<le> (of_char c :: nat) \<and> (of_char c :: nat) \<le> 90)
         \<or> (192 \<le> (of_char c :: nat) \<and> (of_char c :: nat) \<le> 222 \<and> (of_char c :: nat) \<noteq> 215)
      then char_of ((of_char c :: nat) + 32) else c)"
proof (cases c)
  case (Char b0 b1 b2 b3 b4 b5 b6 b7)
  show ?thesis
    unfolding Char
    by (cases b0; cases b1; cases b2; cases b3; cases b4; cases b5; cases b6; cases b7)
       (simp_all add: lower_char_def lower_table_def char_of_def bit_iff_odd)
qed

text \<open>
  Claim C4. \<^verbatim>\<open>_is_domain_blocked\<close> lower-cases its argument (every capital letter
  moves to its small letter, nothing else changes) and answers true exactly when the
  lowered name is an entry of the blocklist or ends with a dot followed by an entry. With
  \<^verbatim>\<open>example.com\<close> blocked, \<^verbatim>\<open>sub.example.com\<close> is blocked and
  \<^verbatim>\<open>evilexample.com\<close> is not. The answer depends on the set of entries only, not on
  the order in which the loop visits them. A name in mixed case is matched, with ASCII
  and with Latin-1 capitals; the entries of the blocklist are taken as they are.
\<close>

theorem is_domain_blocked_spec:
  "(is_domain_blocked B d \<longleftrightarrow>
      (lower d \<in> set B \<or> (\<exists>b\<in>set B. \<exists>pre. lower d = pre @ ''.'' @ b)))
   \<and> (''example.com'' \<in> set B \<longrightarrow> is_domain_blocked B ''sub.example.com'')
   \<and> \<not> is_domain_blocked [''example.com''] ''evilexample.com''
   \<and> (set B = set B' \<longrightarrow> is_domain_blocked B d = is_domain_blocked B' d)
   \<and> lower d = map (\<lambda>c.
        if (65 \<le> (of_char c :: nat) \<and> (of_char c :: nat) \<le> 90)
           \<or> (192 \<le> (of_char c :: nat) \<and> (of_char c :: nat) \<le> 222
               \<and> (of_char c :: nat) \<noteq> 215)
        then char_of ((of_char c :: nat) + 32) else c) d
   \<and> lower ''Sub.EXAMPLE.Com'' = ''sub.example.com''
   \<and> is_domain_blocked [''example.com''] ''Sub.EXAMPLE.Com''
   \<and> \<not> is_domain_blocked [''Example.com''] ''example.com''
   \<and> is_domain_blocked [[CHR 0xE0] @ ''b.com''] ([CHR 0xC0] @ ''B.COM'')"
proof -
  have a: "lower ''sub.example.com'' = ''sub'' @ ''.'' @ ''example.com''"
    by (simp add: lower_def lower_char_def lower_table_def)
  have c1: "is_domain_blocked B d \<longleftrightarrow>
      (lower d \<in> set B \<or> (\<exists>b\<in>set B. \<exists>pre. lower d = pre @ ''.'' @ b))"
    by (rule is_domain_blocked_iff)
  have c2: "''example.com'' \<in> set B \<longrightarrow> is_domain_blocked B ''sub.example.com''"
    unfolding is_domain_blocked_iff using a by blast
  have c3: "\<not> is_domain_blocked [''example.com''] ''evilexample.com''"
    by (simp add: is_domain_blocked_def lower_def lower_char_def lower_table_def endswith_def)
  have c4: "set B = set B' \<longrightarrow> is_domain_blocked B d = is_domain_blocked B' d"
    by (simp add: is_domain_blocked_iff)
  have c5: "lower d = map (\<lambda>c.
        if (65 \<le> (of_char c :: nat) \<and> (of_char c :: nat) \<le> 90)
           \<or> (192 \<le> (of_char c :: nat) \<and> (of_char c :: nat) \<le> 222
               \<and> (of_char c :: nat) \<noteq> 215)
        then char_of ((of_char c :: nat) + 32) else c) d"
    unfolding lower_def by (rule map_cong [OF refl]) (rule lower_char_code_point)
  have c6: "lower ''Sub.EXAMPLE.Com'' = ''sub.example.com''"
    by (simp add: lower_def lower_char_def lower_table_def)
  have c7: "is_domain_blocked [''example.com''] ''Sub.EXAMPLE.Com''"
    by (simp add: is_domain_blocked_def lower_def lower_char_def lower_table_def endswith_def)
  have c8: "\<not> is_domain_blocked [''Example.com''] ''example.com''"
    by (simp add: is_domain_blocked_def lower_def lower_char_def lower_table_def endswith_def)
  have c9: "is_domain_blocked [[CHR 0xE0] @ ''b.com''] ([CHR 0xC0] @ ''B.COM'')"
    by (simp add: is_domain_blocked_def lower_def lower_char_def lower_table_def endswith_def)
  from c1 c2 c3 c4 c5 c6 c7 c8 c9 show ?thesis by (intro conjI)
qed

theorem is_domain_blocked_spec_witness:
  "set [''example.com'', ''test.org''] = set [''test.org'', ''example.com'']
   \<and> ''example.com'' \<in> set [''example.com'', ''test.org'']
   \<and> is_domain_blocked [''example.com'', ''test.org''] ''sub.example.com''
   \<and> is_domain_blocked [''example.com'', ''test.org''] ''Mail.Test.ORG''
        = is_domain_blocked [''test.org'', ''example.com''] ''Mail.Test.ORG''
   \<and> is_domain_blocked [''example.com'', ''test.org''] ''Mail.Test.ORG''"
proof -
  have s: "set [''example.com'', ''test.org''] = set [''test.org'', ''example.com'']"
    by (simp add: insert_commute)
  have m: "''example.com'' \<in> set [''example.com'', ''test.org'']"
    by simp
  have v: "is_domain_blocked [''example.com'', ''test.org''] ''Mail.Test.ORG''"
    by (simp add: is_domain_blocked_def lower_def lower_char_def lower_table_def endswith_def)
  note t = is_domain_blocked_spec [of "[''example.com'', ''test.org'']" "''Mail.Test.ORG''" "[''test.org'', ''example.com'']"]
  note t2 = t [THEN conjunct2, THEN conjunct1]
  note t4 = t [THEN conjunct2, THEN conjunct2, THEN conjunct2, THEN conjunct1]
  from t2 t4 s m v show ?thesis by blast
qed

section \<open>Properties of the ProtocolExtractors\<close>

subsection \<open>No read out of bounds\<close>

lemma exn_bind_total:
  "\<exists>x. m = Inr x \<Longrightarrow> (\<And>x. \<exists>r. f x = Inr r) \<Longrightarrow> \<exists>r. exn_bind m f = Inr r"
  by (auto simp: exn_bind_def)

lemma getitem_total: "i < length p \<Longrightarrow> \<exists>b. getitem p i = Inr b"
  by (simp add: getitem_def)

lemma slice_two: "i + 2 \<le> length p \<Longrightarrow> j = i + 2 \<Longrightarrow> slice p i j = [p ! i, p ! (i + 1)]"
  by (auto simp: slice_def list_eq_iff_nth_eq less_Suc_eq numeral_2_eq_2)

lemma unpack_H_slice:
  "i + 2 \<le> length p \<Longrightarrow> j = i + 2 \<Longrightarrow>
   unpack_H (slice p i j) = Inr (256 * of_char (p ! i) + of_char (p ! (i + 1)))"
  using slice_two [of i p j] by (simp add: unpack_H_def)

lemma unpack_H_total: "i + 2 \<le> length p \<Longrightarrow> j = i + 2 \<Longrightarrow> \<exists>n. unpack_H (slice p i j) = Inr n"
  by (simp add: unpack_H_slice)

lemma unpack_I_total: "5 \<le> length p \<Longrightarrow> \<exists>n. unpack_I (slice p 1 5) = Inr n"
proof -
  assume "5 \<le> length p"
  then have "length (slice p 1 5) = 4" by (simp add: slice_def)
  then obtain a b c d where "slice p 1 5 = [a, b, c, d]"
    by (auto simp: length_Suc_conv eval_nat_numeral)
  then show ?thesis by (simp add: unpack_I_def)
qed

lemma is_quic_initial_try_total: "\<exists>b. is_quic_initial_try payload = Inr b"
proof (cases "length payload < 6")
  case True then show ?thesis by (auto simp: is_quic_initial_try_def)
next
  case False
  then have "\<exists>n. unpack_I (slice payload 1 5) = Inr n" by (intro unpack_I_total) simp
  then obtain n where "unpack_I (slice payload 1 5) = Inr n" ..
  with False show ?thesis
    by (auto simp: is_quic_initial_try_def exn_bind_def getitem_def Let_def)
qed

lemma parse_server_name_total: "\<exists>r. parse_server_name payload off = Inr r"
proof -
  have a: "\<exists>r. exn_bind (unpack_H (slice payload (off + 3) (off + 3 + 2))) (\<lambda>sni_len.
               if off + 3 + 2 + sni_len \<le> length payload
               then Inr (Some (decode_ascii_ignore (slice payload (off + 3 + 2) (off + 3 + 2 + sni_len))))
               else Inr None) = Inr r" if "off + 3 + 2 \<le> length payload"
    using that by (intro exn_bind_total unpack_H_total) auto
  show ?thesis
  proof (cases "off + 2 \<le> length payload")
    case False then show ?thesis by (auto simp: parse_server_name_def)
  next
    case True
    then obtain n where n: "unpack_H (slice payload off (off + 2)) = Inr n"
      using unpack_H_total by blast
    show ?thesis
    proof (cases "off + 3 \<le> length payload")
      case False with True n show ?thesis
        by (auto simp: parse_server_name_def exn_bind_def Let_def)
    next
      case t3: True
      show ?thesis
      proof (cases "off + 3 + 2 \<le> length payload")
        case False with True t3 n show ?thesis
          by (auto simp: parse_server_name_def exn_bind_def Let_def getitem_def)
      next
        case t5: True
        from a [OF t5] obtain r where r: "exn_bind (unpack_H (slice payload (off + 3) (off + 3 + 2))) (\<lambda>sni_len.
               if off + 3 + 2 + sni_len \<le> length payload
               then Inr (Some (decode_ascii_ignore (slice payload (off + 3 + 2) (off + 3 + 2 + sni_len))))
               else Inr None) = Inr r" ..
        have e: "off + 2 + 1 = off + 3" "off + 2 + 1 + 2 = off + 3 + 2" by simp_all
        show ?thesis
          unfolding parse_server_name_def Let_def n e
          using True t3 t5 r by (auto simp: exn_bind_def getitem_def)
      qed
    qed
  qed
qed

lemma extensions_loop_total: "\<exists>r. extensions_loop payload e off = Inr r"
proof (induction payload e off rule: extensions_loop.induct)
  case (1 payload e off)
  show ?case
  proof (cases "off + 4 \<le> e \<and> off + 4 \<le> length payload")
    case False
    then show ?thesis by (subst extensions_loop.simps) auto
  next
    case True
    obtain t where t: "unpack_H (slice payload off (off + 2)) = Inr t"
      using unpack_H_total [of off payload "off + 2"] True by auto
    obtain l where l: "unpack_H (slice payload (off + 2) (off + 4)) = Inr l"
      using unpack_H_total [of "off + 2" payload "off + 4"] True by auto
    show ?thesis
    proof (cases "t = 0 \<and> off + 4 + l \<le> length payload")
      case c: True
      with True t l parse_server_name_total [of payload "off + 4"] show ?thesis
        by (subst extensions_loop.simps) simp
    next
      case c: False
      from 1 [OF True t l c] True t l c show ?thesis
        by (subst extensions_loop.simps) auto
    qed
  qed
qed

lemma extract_sni_try_total: "\<exists>r. extract_sni_try payload = Inr r"
  unfolding extract_sni_try_def Let_def
  by (auto intro!: exn_bind_total getitem_total unpack_H_total extensions_loop_total)

lemma extract_http_host_try_total: "\<exists>r. extract_http_host_try payload = Inr r"
  by (simp add: extract_http_host_try_def Let_def split: option.splits)







section \<open>Properties of the PacketClassifier\<close>

subsection \<open>One verdict for each packet\<close>

lemma verdicts_simps [simp]:
  "verdicts [] = []"
  "verdicts (Verdict v # xs) = v # verdicts xs"
  "verdicts (Send r # xs) = verdicts xs"
  "verdicts (Sleep d # xs) = verdicts xs"
  "verdicts (LogBlock bt a b dm # xs) = verdicts xs"
  "verdicts (LogError ex # xs) = verdicts xs"
  "verdicts (xs @ ys) = verdicts xs @ verdicts ys"
  by (simp_all add: verdicts_def)

lemma injections_simps [simp]:
  "injections [] = []"
  "injections (Verdict v # xs) = injections xs"
  "injections (Send r # xs) = r # injections xs"
  "injections (Sleep d # xs) = injections xs"
  "injections (LogBlock bt a b dm # xs) = injections xs"
  "injections (LogError ex # xs) = injections xs"
  "injections (xs @ ys) = injections xs @ injections ys"
  by (simp_all add: injections_def)

lemma verdicts_send_rst [simp]: "verdicts (send_rst e ip) = []"
  by (simp add: send_rst_def Let_def split: layer4.splits)

lemma verdicts_block_packet:
  "block_packet e s ip bt d = (r, s', effs) \<Longrightarrow>
   (case r of None \<Rightarrow> length (verdicts effs) = 1 | Some ex \<Rightarrow> verdicts effs = [])"
  by (auto simp: block_packet_def Let_def apply_throttle_def time_sleep_def
      split: layer4.splits BlockMode.splits pyfloat.splits if_splits)

lemma verdicts_pass_packet:
  "pass_packet s = (r, s', effs) \<Longrightarrow> r = None \<and> verdicts effs = [Accept]"
  by (auto simp: pass_packet_def)

lemma verdicts_process_http:
  "process_http e s ip dport payload = (r, s', effs) \<Longrightarrow>
   (case r of None \<Rightarrow> length (verdicts effs) = 1 | Some ex \<Rightarrow> verdicts effs = [])"
  by (auto simp: process_http_def pass_packet_def dest: verdicts_block_packet
      split: sum.splits if_splits)

lemma verdicts_process_packet_try:
  "process_packet_try e s packet = (r, s', effs) \<Longrightarrow>
   (case r of None \<Rightarrow> length (verdicts effs) = 1 | Some ex \<Rightarrow> verdicts effs = [])"
  by (auto simp: process_packet_try_def pass_packet_def
      dest: verdicts_block_packet verdicts_process_http
      split: sum.splits layer4.splits option.splits if_splits)

text \<open>
  Claim C2. \<^verbatim>\<open>process_packet\<close> raises nothing and gives exactly one verdict for
  every packet, every simulator state and every behaviour of the outside; when the
  parsing of the packet raises, and more generally whenever anything inside the
  \<^verbatim>\<open>try\<close> block raises, that verdict is accept.
\<close>

theorem process_packet_one_verdict:
  "fst (process_packet e self packet) = None
   \<and> length (verdicts (snd (snd (process_packet e self packet)))) = 1
   \<and> (packet = Inl ex \<longrightarrow> verdicts (snd (snd (process_packet e self packet))) = [Accept])
   \<and> (fst (process_packet_try e
             (self\<lparr>stats := (stats self)\<lparr>total_packets := total_packets (stats self) + 1\<rparr>\<rparr>)
             packet) = Some ex \<longrightarrow>
        verdicts (snd (snd (process_packet e self packet))) = [Accept])"
proof -
  define s1 where "s1 = self\<lparr>stats := (stats self)\<lparr>total_packets := total_packets (stats self) + 1\<rparr>\<rparr>"
  obtain r s' effs where t: "process_packet_try e s1 packet = (r, s', effs)"
    by (cases "process_packet_try e s1 packet") auto
  have p: "process_packet e self packet =
             (case r of None \<Rightarrow> (None, s', effs)
              | Some ex \<Rightarrow> (None, s', effs @ [LogError ex, Verdict Accept]))"
    using t by (simp add: process_packet_def s1_def Let_def split: option.splits)
  note v = verdicts_process_packet_try [OF t]
  have "packet = Inl ex \<longrightarrow> r = Some ex"
    using t by (auto simp: process_packet_try_def)
  with p v t show ?thesis
    unfolding s1_def [symmetric] by (cases r) auto
qed

theorem process_packet_one_verdict_witness:
  "fst (process_packet_try quiet_env
          ((new_DPISimulator [''example.com''] DROP (Finite 2) ''t0'')
             \<lparr>stats := (stats (new_DPISimulator [''example.com''] DROP (Finite 2) ''t0''))
                \<lparr>total_packets :=
                   total_packets (stats (new_DPISimulator [''example.com''] DROP (Finite 2) ''t0'')) + 1\<rparr>\<rparr>)
          (Inl ParseError)) = Some ParseError
   \<and> verdicts (snd (snd (process_packet quiet_env
          (new_DPISimulator [''example.com''] DROP (Finite 2) ''t0'') (Inl ParseError)))) = [Accept]"
  using process_packet_one_verdict [of "quiet_env"
      "new_DPISimulator [''example.com''] DROP (Finite 2) ''t0''" "Inl ParseError" ParseError]
  by (simp add: process_packet_try_def)

subsection \<open>The counters\<close>

text \<open>
  Claim C1. The equation
  \<^verbatim>\<open>total_packets == blocked_sni + blocked_http + blocked_quic + passed\<close> fails after
  a packet whose parsing raises: \<^verbatim>\<open>total_packets\<close> is incremented before the
  \<^verbatim>\<open>try\<close> block, and the handler accepts the packet without incrementing
  \<^verbatim>\<open>passed\<close>, which the ordinary accepting path does. On a fresh simulator the first
  such packet leaves the total at 1 and the four other counters at 0.
\<close>

theorem parse_failure_not_counted:
  "total_packets (stats (fst (snd (process_packet e (new_DPISimulator domains m delay t0) (Inl ex))))) = 1
   \<and> blocked_sni (stats (fst (snd (process_packet e (new_DPISimulator domains m delay t0) (Inl ex)))))
     + blocked_http (stats (fst (snd (process_packet e (new_DPISimulator domains m delay t0) (Inl ex)))))
     + blocked_quic (stats (fst (snd (process_packet e (new_DPISimulator domains m delay t0) (Inl ex)))))
     + passed (stats (fst (snd (process_packet e (new_DPISimulator domains m delay t0) (Inl ex))))) = 0
   \<and> verdicts (snd (snd (process_packet e (new_DPISimulator domains m delay t0) (Inl ex)))) = [Accept]"
  by (simp add: process_packet_def process_packet_try_def new_DPISimulator_def new_SimulatorStats_def)

lemma update_domain_metrics_fields [simp]:
  "total_packets (stats (update_domain_metrics e s d b bt)) = total_packets (stats s)"
  "blocked_sni (stats (update_domain_metrics e s d b bt)) = blocked_sni (stats s)"
  "blocked_http (stats (update_domain_metrics e s d b bt)) = blocked_http (stats s)"
  "blocked_quic (stats (update_domain_metrics e s d b bt)) = blocked_quic (stats s)"
  "passed (stats (update_domain_metrics e s d b bt)) = passed (stats s)"
  "mode (update_domain_metrics e s d b bt) = mode s"
  "blocked_domains (update_domain_metrics e s d b bt) = blocked_domains s"
  "throttle_delay (update_domain_metrics e s d b bt) = throttle_delay s"
  by (simp_all add: update_domain_metrics_def Let_def)

text \<open>What \<open>block_packet\<close> leaves of the state it is given.\<close>

lemma block_packet_state:
  "fst (snd (block_packet e s ip bt d)) = s
   \<or> fst (snd (block_packet e s ip bt d)) =
       update_domain_metrics e s (if truthy d then the d else ''unknown'') True (Some bt)"
  by (auto simp: block_packet_def Let_def apply_throttle_def time_sleep_def
      split: layer4.splits BlockMode.splits pyfloat.splits)

lemma block_packet_counters:
  "total_packets (stats (fst (snd (block_packet e s ip bt d)))) = total_packets (stats s)"
  "blocked_sni (stats (fst (snd (block_packet e s ip bt d)))) = blocked_sni (stats s)"
  "blocked_http (stats (fst (snd (block_packet e s ip bt d)))) = blocked_http (stats s)"
  "blocked_quic (stats (fst (snd (block_packet e s ip bt d)))) = blocked_quic (stats s)"
  "passed (stats (fst (snd (block_packet e s ip bt d)))) = passed (stats s)"
  using block_packet_state [of e s ip bt d] by auto

lemma sni_Inr: "\<exists>r. extract_sni p = Inr r"
  using extract_sni_try_total [of p] by (auto simp: extract_sni_def)

lemma http_Inr: "\<exists>r. extract_http_host p = Inr r"
  using extract_http_host_try_total [of p] by (auto simp: extract_http_host_def)

lemma quic_Inr: "\<exists>r. is_quic_initial p = Inr r"
  using is_quic_initial_try_total [of p] by (auto simp: is_quic_initial_def)

lemma process_http_counters:
  "counters_add_up ((stats s)\<lparr>passed := passed (stats s) + 1\<rparr>) \<Longrightarrow>
   counters_add_up (stats (fst (snd (process_http e s ip dport payload))))"
  using http_Inr [of payload]
  by (auto simp: process_http_def pass_packet_def counters_add_up_def block_packet_counters)

lemma process_packet_try_counters:
  assumes a: "counters_add_up ((stats s)\<lparr>passed := passed (stats s) + 1\<rparr>)"
  shows "counters_add_up (stats (fst (snd (process_packet_try e s (Inr ip)))))"
proof (cases "transport ip")
  case (TCP sp dp sq ak)
  show ?thesis
  proof (cases "raw_load ip")
    case None
    with TCP a show ?thesis by (simp add: process_packet_try_def pass_packet_def)
  next
    case (Some payload)
    obtain sni where sni: "extract_sni payload = Inr sni" using sni_Inr by blast
    note h = process_http_counters [OF a, of e ip dp payload]
    from a have b: "counters_add_up ((stats s)\<lparr>blocked_sni := blocked_sni (stats s) + 1\<rparr>)"
      by (simp add: counters_add_up_def)
    then have "counters_add_up (stats (fst (snd (block_packet e
                 (s\<lparr>stats := (stats s)\<lparr>blocked_sni := blocked_sni (stats s) + 1\<rparr>\<rparr>)
                 ip ''SNI'' sni))))"
      by (simp add: counters_add_up_def block_packet_counters)
    with TCP Some sni h show ?thesis
      by (auto simp: process_packet_try_def)
  qed
next
  case (UDP sp dp)
  show ?thesis
  proof (cases "if dp = 443 then raw_load ip else None")
    case None
    with UDP a show ?thesis by (simp add: process_packet_try_def pass_packet_def)
  next
    case (Some payload)
    obtain q where q: "is_quic_initial payload = Inr q" using quic_Inr by blast
    from a have "counters_add_up (stats (fst (snd (block_packet e
                 (s\<lparr>stats := (stats s)\<lparr>blocked_quic := blocked_quic (stats s) + 1\<rparr>\<rparr>)
                 ip ''QUIC'' None))))"
      by (simp add: counters_add_up_def block_packet_counters)
    with UDP Some q a show ?thesis
      by (simp add: process_packet_try_def pass_packet_def)
  qed
next
  case NoTransport
  with a show ?thesis by (simp add: process_packet_try_def pass_packet_def)
qed

lemma process_packet_state:
  "fst (snd (process_packet e s p)) =
   fst (snd (process_packet_try e
     (s\<lparr>stats := (stats s)\<lparr>total_packets := total_packets (stats s) + 1\<rparr>\<rparr>) p))"
  by (simp add: process_packet_def Let_def split: prod.splits option.splits)

lemma process_packet_counters:
  "counters_add_up (stats s) \<Longrightarrow>
   counters_add_up (stats (fst (snd (process_packet e s (Inr ip)))))"
  unfolding process_packet_state
  by (rule process_packet_try_counters) (simp add: counters_add_up_def)

lemma step_counters:
  "counters_add_up (stats s) \<Longrightarrow> (\<forall>e ex. c \<noteq> Packet e (Inl ex)) \<Longrightarrow>
   counters_add_up (stats (fst (step s c)))"
proof (cases c)
  case (Packet e packet)
  assume a: "counters_add_up (stats s)" and b: "\<forall>e ex. c \<noteq> Packet e (Inl ex)"
  from b Packet obtain ip where "packet = Inr ip" by (cases packet) auto
  with a Packet show ?thesis by (simp add: process_packet_counters)
next
  case (ResetStats t)
  then show ?thesis by (simp add: counters_add_up_def new_SimulatorStats_def)
qed simp_all

lemma run_counters:
  "counters_add_up (stats s) \<Longrightarrow> (\<forall>e ex. Packet e (Inl ex) \<notin> set cmds) \<Longrightarrow>
   counters_add_up (stats (run s cmds))"
proof (induction cmds arbitrary: s)
  case Nil
  then show ?case by simp
next
  case (Cons c cs)
  from Cons.prems have "counters_add_up (stats (fst (step s c)))"
    by (intro step_counters) auto
  with Cons show ?case by simp
qed

subsection \<open>The per-domain metrics\<close>

lemma update_domain_metrics_passed_zero:
  "domain_passed_zero s \<Longrightarrow> domain_passed_zero (update_domain_metrics e s d True bt)"
  by (auto simp: domain_passed_zero_def update_domain_metrics_def Let_def new_DomainMetrics_def
      split: option.splits)

lemma block_packet_passed_zero:
  "domain_passed_zero s \<Longrightarrow> domain_passed_zero (fst (snd (block_packet e s ip bt d)))"
  using block_packet_state [of e s ip bt d] update_domain_metrics_passed_zero by metis

lemma passed_zero_counters [simp]:
  "domain_passed_zero (s\<lparr>stats := (stats s)\<lparr>total_packets := n\<rparr>\<rparr>) = domain_passed_zero s"
  "domain_passed_zero (s\<lparr>stats := (stats s)\<lparr>blocked_sni := n\<rparr>\<rparr>) = domain_passed_zero s"
  "domain_passed_zero (s\<lparr>stats := (stats s)\<lparr>blocked_http := n\<rparr>\<rparr>) = domain_passed_zero s"
  "domain_passed_zero (s\<lparr>stats := (stats s)\<lparr>blocked_quic := n\<rparr>\<rparr>) = domain_passed_zero s"
  "domain_passed_zero (s\<lparr>stats := (stats s)\<lparr>passed := n\<rparr>\<rparr>) = domain_passed_zero s"
  "domain_passed_zero (s\<lparr>mode := m\<rparr>) = domain_passed_zero s"
  "domain_passed_zero (s\<lparr>running := b\<rparr>) = domain_passed_zero s"
  by (simp_all add: domain_passed_zero_def)

lemma process_http_passed_zero:
  "domain_passed_zero s \<Longrightarrow> domain_passed_zero (fst (snd (process_http e s ip dport payload)))"
  by (auto simp: process_http_def pass_packet_def block_packet_passed_zero split: sum.splits)

lemma process_packet_try_passed_zero:
  "domain_passed_zero s \<Longrightarrow> domain_passed_zero (fst (snd (process_packet_try e s packet)))"
  by (auto simp: process_packet_try_def pass_packet_def block_packet_passed_zero
      process_http_passed_zero split: sum.splits layer4.splits option.splits)

lemma step_passed_zero:
  "domain_passed_zero s \<Longrightarrow> domain_passed_zero (fst (step s c))"
proof (cases c)
  case (Packet e packet)
  assume "domain_passed_zero s"
  then show ?thesis
    using process_packet_try_passed_zero
    by (simp add: Packet process_packet_state)
next
  case (ResetStats t)
  then show ?thesis by (simp add: domain_passed_zero_def new_SimulatorStats_def)
qed simp_all

lemma run_passed_zero:
  "domain_passed_zero s \<Longrightarrow> domain_passed_zero (run s cmds)"
  by (induction cmds arbitrary: s) (simp_all add: step_passed_zero)

text \<open>
  Claim C10. After any sequence of packets and control commands on a new simulator,
  every entry of the per-domain map has \<^verbatim>\<open>passed == 0\<close>: the only caller of
  \<^verbatim>\<open>_update_domain_metrics\<close> is \<^verbatim>\<open>_block_packet\<close>, with \<^verbatim>\<open>blocked=True\<close>.
\<close>

theorem domain_passed_never_incremented:
  "domain_metrics (stats (run (new_DPISimulator domains m delay t0) cmds)) d = Some dm
   \<Longrightarrow> dm_passed dm = 0"
proof -
  have "domain_passed_zero (new_DPISimulator domains m delay t0)"
    by (simp add: domain_passed_zero_def new_DPISimulator_def new_SimulatorStats_def)
  then have "domain_passed_zero (run (new_DPISimulator domains m delay t0) cmds)"
    by (rule run_passed_zero)
  then show "domain_metrics (stats (run (new_DPISimulator domains m delay t0) cmds)) d = Some dm
      \<Longrightarrow> dm_passed dm = 0"
    by (simp add: domain_passed_zero_def)
qed

lemmas quic_eval = is_quic_initial_def is_quic_initial_try_def exn_bind_def getitem_def
  slice_def unpack_I_def quic_initial_def quic_packet_def quiet_env_def

lemmas packet_eval = process_packet_def process_packet_try_def block_packet_def
  update_domain_metrics_def new_DPISimulator_def new_SimulatorStats_def new_DomainMetrics_def
  truthy_def send_rst_def apply_throttle_def time_sleep_def pass_packet_def process_http_def

theorem domain_passed_never_incremented_witness:
  "\<exists>dm. domain_metrics (stats (run (new_DPISimulator [''example.com''] DROP (Finite 2) ''t0'')
           [Packet quiet_env
              (Inr quic_packet)]))
        ''unknown'' = Some dm \<and> dm_passed dm = 0"
proof -
  have "\<exists>dm. domain_metrics (stats (run (new_DPISimulator [''example.com''] DROP (Finite 2) ''t0'')
           [Packet quiet_env
              (Inr quic_packet)]))
        ''unknown'' = Some dm"
    by (simp add: quic_eval packet_eval Let_def)
  then show ?thesis
    using domain_passed_never_incremented by blast
qed

section \<open>Properties of the ActionDispatcher\<close>

lemma block_packet_RST:
  "mode s = RST \<Longrightarrow> transport ip \<noteq> NoTransport \<Longrightarrow>
   verdicts (snd (snd (block_packet e s ip bt d))) = [Drop]
   \<and> injections (snd (snd (block_packet e s ip bt d))) = injections (send_rst e ip)
   \<and> fst (block_packet e s ip bt d) = None"
  by (auto simp: block_packet_def Let_def split: layer4.splits)



lemma process_packet_effects:
  "snd (snd (process_packet e s p)) =
   snd (snd (process_packet_try e
     (s\<lparr>stats := (stats s)\<lparr>total_packets := total_packets (stats s) + 1\<rparr>\<rparr>) p))
   @ (case fst (process_packet_try e
     (s\<lparr>stats := (stats s)\<lparr>total_packets := total_packets (stats s) + 1\<rparr>\<rparr>) p) of
        None \<Rightarrow> [] | Some ex \<Rightarrow> [LogError ex, Verdict Accept])"
  by (simp add: process_packet_def Let_def split: prod.splits option.splits)

lemma injections_send_rst_TCP:
  "transport ip = TCP sport dport seq ack \<Longrightarrow>
   injections (send_rst e ip) =
     [\<lparr>rst_src = dst ip, rst_dst = src ip, rst_sport = dport, rst_dport = sport,
       rst_seq = ack, rst_ack = seq + 1, rst_flags = ''RA''\<rparr>]"
  by (simp add: send_rst_def Let_def)

lemma injections_send_rst_UDP:
  "transport ip = UDP sport dport \<Longrightarrow> injections (send_rst e ip) = []"
  by (simp add: send_rst_def)

text \<open>
  Claim C5, amended. In mode \<^verbatim>\<open>rst\<close>, a blocked TCP packet (a blocked SNI on port
  443 or a blocked Host on port 80) makes exactly one call of \<^verbatim>\<open>send\<close>, with the
  addresses and ports of the packet swapped, the sequence number its acknowledgment
  number, the acknowledgment number its sequence number plus 1 and the flags RST+ACK, and
  gets exactly one verdict, drop, whether \<^verbatim>\<open>send\<close> raises or not. A blocked UDP
  packet (a QUIC Initial on port 443) gets exactly one verdict, drop, and no injection:
  \<^verbatim>\<open>_send_rst\<close> acts on packets with a TCP layer only.
\<close>

theorem rst_mode_blocked_packet:
  "(mode self = RST \<and> transport ip = TCP sport dport seq ack \<and> raw_load ip = Some payload
    \<and> ((dport = 443 \<and> extract_sni payload = Inr sni \<and> truthy sni
          \<and> is_domain_blocked (blocked_domains self) (the sni))
       \<or> (dport = 80 \<and> extract_http_host payload = Inr host \<and> truthy host
          \<and> is_domain_blocked (blocked_domains self) (the host)))
    \<longrightarrow> injections (snd (snd (process_packet e self (Inr ip)))) =
          [\<lparr>rst_src = dst ip, rst_dst = src ip, rst_sport = dport, rst_dport = sport,
            rst_seq = ack, rst_ack = seq + 1, rst_flags = ''RA''\<rparr>]
        \<and> verdicts (snd (snd (process_packet e self (Inr ip)))) = [Drop])
   \<and> (mode self = RST \<and> transport ip = UDP sport 443 \<and> raw_load ip = Some payload
      \<and> is_quic_initial payload = Inr True
    \<longrightarrow> injections (snd (snd (process_packet e self (Inr ip)))) = []
        \<and> verdicts (snd (snd (process_packet e self (Inr ip)))) = [Drop])"
proof (intro conjI impI; elim conjE)
  assume m: "mode self = RST" and t: "transport ip = TCP sport dport seq ack"
    and r: "raw_load ip = Some payload"
    and b: "(dport = 443 \<and> extract_sni payload = Inr sni \<and> truthy sni
          \<and> is_domain_blocked (blocked_domains self) (the sni))
       \<or> (dport = 80 \<and> extract_http_host payload = Inr host \<and> truthy host
          \<and> is_domain_blocked (blocked_domains self) (the host))"
  have nt: "transport ip \<noteq> NoTransport" using t by simp
  note bp = block_packet_RST [OF _ nt] injections_send_rst_TCP [OF t]
  from b show "injections (snd (snd (process_packet e self (Inr ip)))) =
          [\<lparr>rst_src = dst ip, rst_dst = src ip, rst_sport = dport, rst_dport = sport,
            rst_seq = ack, rst_ack = seq + 1, rst_flags = ''RA''\<rparr>]"
    using m t r
    by (auto simp: process_packet_effects process_packet_try_def process_http_def bp)
  from b show "verdicts (snd (snd (process_packet e self (Inr ip)))) = [Drop]"
    using m t r
    by (auto simp: process_packet_effects process_packet_try_def process_http_def bp)
next
  assume m: "mode self = RST" and t: "transport ip = UDP sport 443"
    and r: "raw_load ip = Some payload" and q: "is_quic_initial payload = Inr True"
  have nt: "transport ip \<noteq> NoTransport" using t by simp
  note bp = block_packet_RST [OF _ nt] injections_send_rst_UDP [OF t]
  show "injections (snd (snd (process_packet e self (Inr ip)))) = []"
    using m t r q by (simp add: process_packet_effects process_packet_try_def bp)
  show "verdicts (snd (snd (process_packet e self (Inr ip)))) = [Drop]"
    using m t r q by (simp add: process_packet_effects process_packet_try_def bp)
qed

lemmas http_eval = extract_http_host_def extract_http_host_try_def decode_ascii_ignore_def
  crlf_def http_methods_def startswith_def match_here_def lower_def lower_char_def
  lower_table_def group_at_def not_crlf_def isspace_def strip_def

lemma http_request_host: "extract_http_host http_request = Inr (Some ''example.com'')"
  by (simp add: http_request_def http_eval)

lemma example_com_blocked: "is_domain_blocked [''example.com''] ''example.com''"
  by (simp add: is_domain_blocked_def lower_def lower_char_def lower_table_def)

lemma quic_initial_detected: "is_quic_initial quic_initial = Inr True"
  by (simp add: quic_eval)

text \<open>
  Claim C7. The value returned is not always the value of the Host header: the pattern
  is searched anywhere in the text, so for a request whose \<^verbatim>\<open>X-Forwarded-Host\<close>
  line comes before its \<^verbatim>\<open>Host\<close> line the extractor returns the value of the
  former, \<^verbatim>\<open>a.example\<close>, where the Host header says \<^verbatim>\<open>b.example\<close>.
\<close>

theorem host_extractor_takes_other_header: "extract_http_host http_request_forwarded = Inr (Some ''a.example'')"
  by (simp add: http_request_forwarded_def http_eval)

text \<open>
  Claim C5 as stated fails: in mode \<^verbatim>\<open>rst\<close> a blocked QUIC packet is counted as
  blocked and dropped, and no segment is injected.
\<close>

theorem rst_mode_quic_no_injection:
  "mode (new_DPISimulator [''example.com''] RST (Finite 2) ''t0'') = RST
   \<and> blocked_quic (stats (fst (snd (process_packet quiet_env
         (new_DPISimulator [''example.com''] RST (Finite 2) ''t0'') (Inr quic_packet))))) = 1
   \<and> verdicts (snd (snd (process_packet quiet_env
         (new_DPISimulator [''example.com''] RST (Finite 2) ''t0'') (Inr quic_packet)))) = [Drop]
   \<and> length (injections (snd (snd (process_packet quiet_env
         (new_DPISimulator [''example.com''] RST (Finite 2) ''t0'') (Inr quic_packet))))) \<noteq> 1"
  by (simp add: quic_eval packet_eval Let_def)

theorem rst_mode_blocked_packet_witness:
  "mode (new_DPISimulator [''example.com''] RST (Finite 2) ''t0'') = RST
   \<and> transport http_packet = TCP 40000 80 1000 2000
   \<and> raw_load http_packet = Some http_request
   \<and> extract_http_host http_request = Inr (Some ''example.com'')
   \<and> truthy (Some ''example.com'')
   \<and> is_domain_blocked (blocked_domains (new_DPISimulator [''example.com''] RST (Finite 2) ''t0''))
        (the (Some ''example.com''))
   \<and> injections (snd (snd (process_packet quiet_env
         (new_DPISimulator [''example.com''] RST (Finite 2) ''t0'') (Inr http_packet)))) =
        [\<lparr>rst_src = ''10.0.0.2'', rst_dst = ''10.0.0.1'', rst_sport = 80, rst_dport = 40000,
          rst_seq = 2000, rst_ack = 1001, rst_flags = ''RA''\<rparr>]
   \<and> verdicts (snd (snd (process_packet quiet_env
         (new_DPISimulator [''example.com''] RST (Finite 2) ''t0'') (Inr http_packet)))) = [Drop]
   \<and> transport quic_packet = UDP 50000 443
   \<and> raw_load quic_packet = Some quic_initial
   \<and> is_quic_initial quic_initial = Inr True
   \<and> injections (snd (snd (process_packet quiet_env
         (new_DPISimulator [''example.com''] RST (Finite 2) ''t0'') (Inr quic_packet)))) = []
   \<and> verdicts (snd (snd (process_packet quiet_env
         (new_DPISimulator [''example.com''] RST (Finite 2) ''t0'') (Inr quic_packet)))) = [Drop]"
proof -
  have m: "mode (new_DPISimulator [''example.com''] RST (Finite 2) ''t0'') = RST"
    and bl: "blocked_domains (new_DPISimulator [''example.com''] RST (Finite 2) ''t0'') = [''example.com'']"
    by (simp_all add: new_DPISimulator_def)
  have t: "transport http_packet = TCP 40000 80 1000 2000"
    "raw_load http_packet = Some http_request" "src http_packet = ''10.0.0.1''"
    "dst http_packet = ''10.0.0.2''"
    by (simp_all add: http_packet_def)
  have u: "transport quic_packet = UDP 50000 443" "raw_load quic_packet = Some quic_initial"
    by (simp_all add: quic_packet_def)
  note a = rst_mode_blocked_packet [of "new_DPISimulator [''example.com''] RST (Finite 2) ''t0''"
      http_packet 40000 80 1000 2000 http_request "None" "Some ''example.com''" quiet_env,
      THEN conjunct1]
  note b = rst_mode_blocked_packet [of "new_DPISimulator [''example.com''] RST (Finite 2) ''t0''"
      quic_packet 50000 0 0 0 quic_initial "None" "None" quiet_env, THEN conjunct2]
  from a b m bl t u http_request_host example_com_blocked quic_initial_detected
  show ?thesis by (simp add: truthy_def)
qed




section \<open>The SNI extractor on encoded ClientHello records\<close>

lemma length_be16 [simp]: "length (be16 n) = 2"
  by (simp add: be16_def)

lemma length_encode_extension [simp]:
  "length (encode_extension ext) = 4 + length (snd ext)"
  by (simp add: encode_extension_def)

lemma encode_extensions_simps [simp]:
  "encode_extensions [] = []"
  "encode_extensions (x # xs) = encode_extension x @ encode_extensions xs"
  by (simp_all add: encode_extensions_def)

lemma decode_ascii_ignore_ascii:
  "list_all (\<lambda>b. (of_char b :: nat) < 128) bs \<Longrightarrow> decode_ascii_ignore bs = bs"
  by (induction bs) (simp_all add: decode_ascii_ignore_def)

lemma slice_append_exact:
  "p = pre @ xs @ rest \<Longrightarrow> i = length pre \<Longrightarrow> j = i + length xs \<Longrightarrow> slice p i j = xs"
  by (simp add: slice_def)

lemma slice_take: "j \<le> k \<Longrightarrow> slice (take k p) i j = slice p i j"
proof -
  assume "j \<le> k"
  then have "min (j - i) (k - i) = j - i" by simp
  then show ?thesis by (simp add: slice_def drop_take)
qed

text \<open>Reading one byte and one 16-bit field of a payload cut after \<open>k\<close> bytes.\<close>

lemma read8:
  "p = pre @ [c] @ rest \<Longrightarrow> i = length pre \<Longrightarrow> i < k \<Longrightarrow> getitem (take k p) i = Inr c"
proof -
  assume a: "p = pre @ [c] @ rest" "i = length pre" "i < k"
  then have "i < length (take k p)" by simp
  moreover have "take k p ! i = p ! i" using a(3) by (rule nth_take)
  moreover have "p ! i = c" using a by simp
  ultimately show ?thesis by (simp only: getitem_def if_True)
qed

lemma read16:
  "p = pre @ be16 n @ rest \<Longrightarrow> i = length pre \<Longrightarrow> j = i + 2 \<Longrightarrow> j \<le> k \<Longrightarrow> n < 65536 \<Longrightarrow>
   unpack_H (slice (take k p) i j) = Inr n"
proof -
  assume a: "p = pre @ be16 n @ rest" "i = length pre" "j = i + 2" "j \<le> k" and n: "n < 65536"
  have "slice (take k p) i j = slice p i j"
    using a(4) by (rule slice_take)
  also have "\<dots> = be16 n"
    by (rule slice_append_exact [OF a(1) a(2)]) (simp add: a(3))
  finally have "slice (take k p) i j = be16 n" .
  moreover have "n div 256 < 256" using n by simp
  ultimately show ?thesis
    by (simp add: unpack_H_def be16_def)
qed

lemma length_server_name_data [simp]: "length (server_name_data host) = 5 + length host"
  by (simp add: server_name_data_def)

text \<open>The server_name block, reached with the whole extension inside the payload.\<close>

lemma parse_server_name_hit:
  assumes p: "p = pre @ server_name_data host @ rest" and off: "off = length pre"
    and k: "off + 5 + length host \<le> k"
    and h: "length host + 5 < 65536" "list_all (\<lambda>b. (of_char b :: nat) < 128) host"
  shows "parse_server_name (take k p) off = Inr (Some host)"
proof -
  have len: "length (take k p) = min k (off + 5 + length host + length rest)"
    using p off by simp
  have r1: "unpack_H (slice (take k p) off (off + 2)) = Inr (length host + 3)"
    using p off k h(1) by (intro read16 [where pre = pre and rest = "[char_of (0::nat)] @ be16 (length host) @ host @ rest"])
      (simp_all add: server_name_data_def)
  have r2: "getitem (take k p) (off + 2) = Inr (char_of (0::nat))"
    using p off k by (intro read8 [where pre = "pre @ be16 (length host + 3)" and rest = "be16 (length host) @ host @ rest"])
      (simp_all add: server_name_data_def)
  have r3: "unpack_H (slice (take k p) (off + 2 + 1) (off + 2 + 1 + 2)) = Inr (length host)"
    using p off k h(1) by (intro read16 [where pre = "pre @ be16 (length host + 3) @ [char_of (0::nat)]" and rest = "host @ rest"])
      (simp_all add: server_name_data_def)
  have "slice (take k p) (off + 2 + 1 + 2) (off + 2 + 1 + 2 + length host)
        = slice p (off + 2 + 1 + 2) (off + 2 + 1 + 2 + length host)"
    using k by (intro slice_take) simp
  also have "\<dots> = host"
    using p off
    by (intro slice_append_exact [where pre = "pre @ be16 (length host + 3) @ [char_of (0::nat)] @ be16 (length host)" and rest = rest])
      (simp_all add: server_name_data_def)
  finally have r4: "slice (take k p) (off + 2 + 1 + 2) (off + 2 + 1 + 2 + length host) = host" .
  have z: "(of_char (char_of (0::nat)) :: nat) = 0x00" by simp
  show ?thesis
    apply (simp only: parse_server_name_def Let_def r1 r2 r3 r4 exn_bind_def sum.case z
        decode_ascii_ignore_ascii [OF h(2)] if_True refl)
    using len k apply simp
    done
qed

text \<open>The loop on a payload cut after \<open>k\<close> bytes, started at an extension boundary
  before the server_name extension: the host name when the cut is after its last byte,
  none otherwise.\<close>

lemma extensions_loop_encoded:
  assumes h: "length host + 5 < 65536" "list_all (\<lambda>b. (of_char b :: nat) < 128) host"
  shows "list_all (\<lambda>ext. wf_extension ext \<and> fst ext \<noteq> 0) before \<Longrightarrow>
    p = pre @ encode_extensions before @ encode_extension (0, server_name_data host) @ rest \<Longrightarrow>
    length pre + length (encode_extensions before) + 9 + length host \<le> ext_end \<Longrightarrow>
    extensions_loop (take k p) ext_end (length pre) =
      Inr (if length pre + length (encode_extensions before) + 9 + length host \<le> k
           then Some host else None)"
proof (induction before arbitrary: pre)
  case Nil
  define off where "off = length pre"
  have p: "p = pre @ be16 0 @ be16 (5 + length host) @ server_name_data host @ rest"
    using Nil.prems(2) by (simp add: encode_extension_def)
  have "length p = off + 9 + length host + length rest"
    using p by (simp add: off_def)
  then have len: "length (take k p) = min k (off + 9 + length host + length rest)"
    by (simp only: length_take min.commute)
  have e: "off + 9 + length host \<le> ext_end" using Nil.prems(3) by (simp add: off_def)
  show ?case
  proof (cases "off + 4 \<le> k")
    case False
    then show ?thesis
      using len by (subst extensions_loop.simps) (simp add: off_def)
  next
    case True
    have t: "unpack_H (slice (take k p) off (off + 2)) = Inr 0"
      using p True by (intro read16 [where pre = pre and rest = "be16 (5 + length host) @ server_name_data host @ rest"])
        (simp_all add: off_def)
    have l: "unpack_H (slice (take k p) (off + 2) (off + 4)) = Inr (5 + length host)"
      using p True h(1) by (intro read16 [where pre = "pre @ be16 0" and rest = "server_name_data host @ rest"])
        (simp_all add: off_def)
    show ?thesis
    proof (cases "off + 9 + length host \<le> k")
      case hit: True
      have "parse_server_name (take k p) (off + 4) = Inr (Some host)"
        using p hit h
        by (intro parse_server_name_hit [where pre = "pre @ be16 0 @ be16 (5 + length host)" and rest = rest])
          (simp_all add: off_def)
      then show ?thesis
        unfolding off_def [symmetric]
        apply (subst extensions_loop.simps)
        apply (simp only: t l sum.case)
        using len e hit True apply simp
        done
    next
      case miss: False
      have "extensions_loop (take k p) ext_end (off + 4 + (5 + length host)) = Inr None"
        using len miss by (subst extensions_loop.simps) simp
      then show ?thesis
        unfolding off_def [symmetric]
        apply (subst extensions_loop.simps)
        apply (simp only: t l sum.case)
        using len e miss True apply simp
        done
    qed
  qed
next
  case (Cons x before)
  define off where "off = length pre"
  from Cons.prems(1) have x: "fst x < 65536" "length (snd x) < 65536" "fst x \<noteq> 0"
    and w: "list_all (\<lambda>ext. wf_extension ext \<and> fst ext \<noteq> 0) before"
    by (simp_all add: wf_extension_def)
  have p: "p = pre @ be16 (fst x) @ be16 (length (snd x)) @ snd x @ encode_extensions before
               @ encode_extension (0, server_name_data host) @ rest"
    using Cons.prems(2) by (simp add: encode_extension_def)
  have "length p = off + 4 + length (snd x) + length (encode_extensions before)
               + 9 + length host + length rest"
    using p by (simp add: off_def)
  then have len: "length (take k p) = min k (off + 4 + length (snd x) + length (encode_extensions before)
               + 9 + length host + length rest)"
    by (simp only: length_take min.commute)
  have e: "off + 4 + length (snd x) + length (encode_extensions before) + 9 + length host \<le> ext_end"
    using Cons.prems(3) by (simp add: off_def)
  show ?case
  proof (cases "off + 4 \<le> k")
    case False
    then show ?thesis
      using len by (subst extensions_loop.simps) (simp add: off_def)
  next
    case True
    have t: "unpack_H (slice (take k p) off (off + 2)) = Inr (fst x)"
      using p True x by (intro read16 [where pre = pre and rest = "be16 (length (snd x)) @ snd x @ encode_extensions before
               @ encode_extension (0, server_name_data host) @ rest"])
        (simp_all add: off_def)
    have l: "unpack_H (slice (take k p) (off + 2) (off + 4)) = Inr (length (snd x))"
      using p True x by (intro read16 [where pre = "pre @ be16 (fst x)" and rest = "snd x @ encode_extensions before
               @ encode_extension (0, server_name_data host) @ rest"])
        (simp_all add: off_def)
    have "extensions_loop (take k p) ext_end (length (pre @ encode_extension x)) =
      Inr (if length (pre @ encode_extension x) + length (encode_extensions before) + 9 + length host \<le> k
           then Some host else None)"
      using w Cons.prems(2) e by (intro Cons.IH) (simp_all add: off_def)
    then have ih: "extensions_loop (take k p) ext_end (off + 4 + length (snd x)) =
      Inr (if off + 4 + length (snd x) + length (encode_extensions before) + 9 + length host \<le> k
           then Some host else None)"
      by (simp add: off_def add.assoc)
    show ?thesis
      unfolding off_def [symmetric]
      apply (subst extensions_loop.simps)
      apply (simp only: t l sum.case ih)
      using len e True x(3) apply simp
      done
  qed
qed

lemma length_be24 [simp]: "length (be24 n) = 3"
  by (simp add: be24_def)

text \<open>The extractor on an encoded ClientHello cut after \<open>k\<close> bytes.\<close>

lemma extract_sni_try_encoded:
  assumes wf: "wf_client_hello h"
  shows "extract_sni_try (take k (encode_client_hello h)) =
           Inr (if host_name_end h \<le> k then Some (host_name h) else None)"
proof -
  define p where "p = encode_client_hello h"
  define sid where "sid = session_id h"
  define cs where "cs = cipher_suites h"
  define cm where "cm = compression_methods h"
  define exts where "exts = hello_extensions h"
  define pre43 where "pre43 = [char_of (0x16::nat)] @ record_version h @ be16 (4 + length (hello_body h))
     @ [char_of (0x01::nat)] @ be24 (length (hello_body h)) @ client_version h @ random h"
  define pre where "pre = pre43 @ [char_of (length sid)] @ sid @ be16 (length cs) @ cs
     @ [char_of (length cm)] @ cm @ be16 (length exts)"
  from wf have w: "length (record_version h) = 2" "length (client_version h) = 2"
    "length (random h) = 32" "length sid \<le> 32" "length cs < 65536" "length cm < 256"
    "list_all (\<lambda>ext. wf_extension ext \<and> fst ext \<noteq> 0) (extensions_before h)"
    "length (host_name h) + 5 < 65536"
    "list_all (\<lambda>b. (of_char b :: nat) < 128) (host_name h)"
    "length exts < 65536"
    by (simp_all add: wf_client_hello_def sid_def cs_def cm_def exts_def)
  have l43: "length pre43 = 43" using w by (simp add: pre43_def)
  have P: "p = pre43 @ [char_of (length sid)] @ sid @ be16 (length cs) @ cs
     @ [char_of (length cm)] @ cm @ be16 (length exts) @ exts"
    by (simp add: p_def encode_client_hello_def hello_body_def pre43_def sid_def cs_def cm_def exts_def)
  have E: "exts = encode_extensions (extensions_before h)
     @ encode_extension (0, server_name_data (host_name h)) @ encode_extensions (extensions_after h)"
    by (simp add: exts_def hello_extensions_def)
  have lpre: "length pre = 43 + 1 + length sid + 2 + length cs + 1 + length cm + 2"
    by (simp add: pre_def l43)
  have lexts: "length (encode_extensions (extensions_before h)) + 9 + length (host_name h) \<le> length exts"
    by (simp add: E)
  have lp: "length p = 43 + 1 + length sid + 2 + length cs + 1 + length cm + 2 + length exts"
    by (simp add: P l43)
  have len: "length (take k p) = min k (43 + 1 + length sid + 2 + length cs + 1 + length cm + 2 + length exts)"
    using lp by (simp only: length_take min.commute)
  have hne: "host_name_end h = 43 + 1 + length sid + 2 + length cs + 1 + length cm + 2
      + length (encode_extensions (extensions_before h)) + 9 + length (host_name h)"
    by (simp add: host_name_end_def sid_def cs_def cm_def)
  have oc: "(of_char (char_of (length sid)) :: nat) = length sid"
    "(of_char (char_of (length cm)) :: nat) = length cm"
    using w by simp_all
  have g0: "getitem (take k p) 0 = Inr (char_of (0x16::nat))" if "0 < k"
    using that by (intro read8 [where pre = "[]" and rest = "tl p"]) (simp_all add: P pre43_def)
  have g5: "getitem (take k p) 5 = Inr (char_of (0x01::nat))" if "5 < k"
    using that w
    by (intro read8 [where pre = "[char_of (0x16::nat)] @ record_version h @ be16 (4 + length (hello_body h))"
          and rest = "drop 6 p"]) (simp_all add: P pre43_def)
  have g43: "getitem (take k p) 43 = Inr (char_of (length sid))" if "43 < k"
    using that by (intro read8 [where pre = pre43 and rest = "drop 44 p"]) (simp_all add: P l43)
  have u2: "unpack_H (slice (take k p) (43 + 1 + length sid) (43 + 1 + length sid + 2)) = Inr (length cs)"
    if "43 + 1 + length sid + 2 \<le> k"
    using that w
    by (intro read16 [where pre = "pre43 @ [char_of (length sid)] @ sid"
          and rest = "cs @ [char_of (length cm)] @ cm @ be16 (length exts) @ exts"])
       (simp_all add: P l43)
  have g3: "getitem (take k p) (43 + 1 + length sid + 2 + length cs) = Inr (char_of (length cm))"
    if "43 + 1 + length sid + 2 + length cs < k"
    using that
    by (intro read8 [where pre = "pre43 @ [char_of (length sid)] @ sid @ be16 (length cs) @ cs"
          and rest = "cm @ be16 (length exts) @ exts"])
       (simp_all add: P l43)
  have u4: "unpack_H (slice (take k p) (43 + 1 + length sid + 2 + length cs + 1 + length cm)
              (43 + 1 + length sid + 2 + length cs + 1 + length cm + 2)) = Inr (length exts)"
    if "43 + 1 + length sid + 2 + length cs + 1 + length cm + 2 \<le> k"
    using that w
    by (intro read16 [where pre = "pre43 @ [char_of (length sid)] @ sid @ be16 (length cs) @ cs
            @ [char_of (length cm)] @ cm" and rest = exts])
       (simp_all add: P l43)
  have "extensions_loop (take k p) (length pre + length exts) (length pre) =
      Inr (if length pre + length (encode_extensions (extensions_before h)) + 9 + length (host_name h) \<le> k
           then Some (host_name h) else None)"
    using w lexts
    by (intro extensions_loop_encoded [where rest = "encode_extensions (extensions_after h)"])
       (simp_all add: P E pre_def)
  then have loop: "extensions_loop (take k p)
       (43 + 1 + length sid + 2 + length cs + 1 + length cm + 2 + length exts)
       (43 + 1 + length sid + 2 + length cs + 1 + length cm + 2) =
      Inr (if host_name_end h \<le> k then Some (host_name h) else None)"
    unfolding lpre hne .
  consider (a) "k < 43" | (b) "k = 43" | (c) "43 < k" "k < 43 + 1 + length sid + 2"
    | (d) "43 + 1 + length sid + 2 \<le> k" "k < 43 + 1 + length sid + 2 + length cs + 1"
    | (e) "43 + 1 + length sid + 2 + length cs + 1 \<le> k"
          "k < 43 + 1 + length sid + 2 + length cs + 1 + length cm + 2"
    | (f) "43 + 1 + length sid + 2 + length cs + 1 + length cm + 2 \<le> k"
    by linarith
  then have "extract_sni_try (take k p) = Inr (if host_name_end h \<le> k then Some (host_name h) else None)"
  proof cases
    case a
    then show ?thesis using len hne by (simp add: extract_sni_try_def)
  next
    case b
    then have r: "getitem (take k p) 0 = Inr (char_of (0x16::nat))"
      "getitem (take k p) 5 = Inr (char_of (0x01::nat))"
      using g0 g5 by simp_all
    show ?thesis
      apply (simp only: extract_sni_try_def Let_def r exn_bind_def sum.case)
      using len hne b apply simp
      done
  next
    case c
    then have r: "getitem (take k p) 0 = Inr (char_of (0x16::nat))"
      "getitem (take k p) 5 = Inr (char_of (0x01::nat))"
      "getitem (take k p) 43 = Inr (char_of (length sid))"
      using g0 g5 g43 by simp_all
    show ?thesis
      apply (simp only: extract_sni_try_def Let_def r exn_bind_def sum.case oc)
      using len hne c apply simp
      done
  next
    case d
    then have r: "getitem (take k p) 0 = Inr (char_of (0x16::nat))"
      "getitem (take k p) 5 = Inr (char_of (0x01::nat))"
      "getitem (take k p) 43 = Inr (char_of (length sid))"
      using g0 g5 g43 by simp_all
    note r2 = u2 [OF d(1)]
    show ?thesis
      apply (simp only: extract_sni_try_def Let_def r r2 exn_bind_def sum.case oc)
      using len hne d apply simp
      done
  next
    case e
    then have r: "getitem (take k p) 0 = Inr (char_of (0x16::nat))"
      "getitem (take k p) 5 = Inr (char_of (0x01::nat))"
      "getitem (take k p) 43 = Inr (char_of (length sid))"
      using g0 g5 g43 by simp_all
    from e have r2: "unpack_H (slice (take k p) (43 + 1 + length sid) (43 + 1 + length sid + 2)) = Inr (length cs)"
      by (intro u2) simp
    from e have r3: "getitem (take k p) (43 + 1 + length sid + 2 + length cs) = Inr (char_of (length cm))"
      by (intro g3) simp
    show ?thesis
      apply (simp only: extract_sni_try_def Let_def r r2 r3 exn_bind_def sum.case oc)
      using len hne e apply simp
      done
  next
    case f
    then have r: "getitem (take k p) 0 = Inr (char_of (0x16::nat))"
      "getitem (take k p) 5 = Inr (char_of (0x01::nat))"
      "getitem (take k p) 43 = Inr (char_of (length sid))"
      using g0 g5 g43 by simp_all
    from f have r2: "unpack_H (slice (take k p) (43 + 1 + length sid) (43 + 1 + length sid + 2)) = Inr (length cs)"
      by (intro u2) simp
    from f have r3: "getitem (take k p) (43 + 1 + length sid + 2 + length cs) = Inr (char_of (length cm))"
      by (intro g3) simp
    note r4 = u4 [OF f]
    show ?thesis
      apply (simp only: extract_sni_try_def Let_def r r2 r3 r4 exn_bind_def sum.case oc loop)
      using lp f apply (simp add: min_def)
      done
  qed
  then show ?thesis by (simp only: p_def)
qed

lemma host_name_end_le_length:
  "wf_client_hello h \<Longrightarrow> host_name_end h \<le> length (encode_client_hello h)"
  by (simp add: wf_client_hello_def host_name_end_def encode_client_hello_def hello_body_def
      hello_extensions_def)

text \<open>
  Claim C3. On every well-formed ClientHello record that carries a server_name
  extension the extractor returns exactly the host name encoded in it, and on every
  prefix of such a record that ends before the last byte of the host name it returns
  none (as a value: nothing is raised).
\<close>

theorem extract_sni_roundtrip:
  "wf_client_hello h \<Longrightarrow>
     extract_sni (encode_client_hello h) = Inr (Some (host_name h))
     \<and> (\<forall>k. k < host_name_end h \<longrightarrow>
            extract_sni (take k (encode_client_hello h)) = Inr None)"
proof -
  assume wf: "wf_client_hello h"
  have "extract_sni_try (take (length (encode_client_hello h)) (encode_client_hello h)) =
          Inr (Some (host_name h))"
    using host_name_end_le_length [OF wf] by (simp only: extract_sni_try_encoded [OF wf] if_True)
  then have "extract_sni (encode_client_hello h) = Inr (Some (host_name h))"
    by (simp add: extract_sni_def)
  moreover have "extract_sni (take k (encode_client_hello h)) = Inr None"
    if "k < host_name_end h" for k
    using that by (simp add: extract_sni_def extract_sni_try_encoded [OF wf])
  ultimately show ?thesis by blast
qed

lemma wf_example_hello: "wf_client_hello example_hello"
  by (simp add: wf_client_hello_def example_hello_def wf_extension_def hello_extensions_def
      encode_extension_def server_name_data_def)

theorem extract_sni_roundtrip_witness:
  "wf_client_hello example_hello
   \<and> extract_sni (encode_client_hello example_hello) = Inr (Some ''example.com'')
   \<and> (60::nat) < host_name_end example_hello
   \<and> extract_sni (take 60 (encode_client_hello example_hello)) = Inr None"
proof -
  have e: "(60::nat) < host_name_end example_hello"
    by (simp add: host_name_end_def example_hello_def encode_extension_def)
  have n: "host_name example_hello = ''example.com''"
    by (simp add: example_hello_def)
  from extract_sni_roundtrip [OF wf_example_hello] e n wf_example_hello show ?thesis by simp
qed

subsection \<open>What the Host extractor returns\<close>

lemma re_search_Some:
  "re_search s = Some g \<Longrightarrow> \<exists>pre suf. s = pre @ suf \<and> match_here suf = Some g"
proof (induction s)
  case Nil
  then show ?case by simp
next
  case (Cons c cs)
  show ?case
  proof (cases "match_here (c # cs)")
    case (Some g')
    with Cons.prems have "c # cs = [] @ (c # cs) \<and> match_here (c # cs) = Some g" by simp
    then show ?thesis by blast
  next
    case None
    with Cons.prems have "re_search cs = Some g" by simp
    from Cons.IH [OF this] obtain pre suf where "cs = pre @ suf" "match_here suf = Some g"
      by blast
    then have "c # cs = (c # pre) @ suf \<and> match_here suf = Some g" by simp
    then show ?thesis by blast
  qed
qed

lemma extract_http_host_Some:
  assumes "extract_http_host payload = Inr (Some host)"
  shows "list_ex (startswith (decode_ascii_ignore payload)) http_methods
    \<and> (\<exists>pre name rest. decode_ascii_ignore payload = pre @ name @ rest \<and> lower name = ''host:'')
    \<and> CHR '':'' \<notin> set host"
proof -
  from assms have m: "list_ex (startswith (decode_ascii_ignore payload)) http_methods"
    by (auto simp: extract_http_host_def extract_http_host_try_def Let_def
        split: if_splits option.splits)
  from assms obtain g where g: "re_search (decode_ascii_ignore payload) = Some g"
    and h: "host = (if CHR '':'' \<in> set (strip g) then takeWhile (\<lambda>c. c \<noteq> CHR '':'') (strip g)
                    else strip g)"
    by (auto simp: extract_http_host_def extract_http_host_try_def Let_def
        split: if_splits option.splits)
  from re_search_Some [OF g] obtain pre suf
    where s: "decode_ascii_ignore payload = pre @ suf" "match_here suf = Some g" by blast
  then have "lower (take 5 suf) = ''host:''"
    by (simp add: match_here_def split: if_splits)
  moreover have "decode_ascii_ignore payload = pre @ take 5 suf @ drop 5 suf"
    using s by simp
  ultimately have "\<exists>pre name rest. decode_ascii_ignore payload = pre @ name @ rest
      \<and> lower name = ''host:''" by blast
  moreover have "CHR '':'' \<notin> set host"
  proof (cases "CHR '':'' \<in> set (strip g)")
    case True
    then show ?thesis using h by (auto dest: set_takeWhileD)
  next
    case False
    then show ?thesis using h by simp
  qed
  ultimately show ?thesis using m by blast
qed

section \<open>Properties of the MetricsStore under a concurrent reader\<close>




end
